theory Spec2Isabelle
  imports Main "HOL-Library.AList"
begin

section \<open>Python strings and dictionaries\<close>

text \<open>
  A Python \<open>str\<close> is modelled as a \<open>string\<close> (a list of 8-bit characters). The model
  covers ASCII text, which is what the pipeline poller writes: \<open>str.lower\<close> and
  \<open>str.upper\<close> change the 26 ASCII letters and leave every other character alone, and
  \<open>str.split()\<close> without an argument separates at the ASCII white space characters.
  Exceptions are values of the type \<open>py_error\<close>; a function that can raise returns
  \<open>py_error + 'a\<close>.
\<close>

datatype py_error = IndexError | KeyError | UnboundLocalError

definition lower_char :: "char \<Rightarrow> char" where
  "lower_char c =
     (case map_of (zip ''ABCDEFGHIJKLMNOPQRSTUVWXYZ'' ''abcdefghijklmnopqrstuvwxyz'') c of
        None \<Rightarrow> c | Some d \<Rightarrow> d)"

definition upper_char :: "char \<Rightarrow> char" where
  "upper_char c =
     (case map_of (zip ''abcdefghijklmnopqrstuvwxyz'' ''ABCDEFGHIJKLMNOPQRSTUVWXYZ'') c of
        None \<Rightarrow> c | Some d \<Rightarrow> d)"

definition lower :: "string \<Rightarrow> string" where
  "lower s = map lower_char s"

definition upper :: "string \<Rightarrow> string" where
  "upper s = map upper_char s"

text \<open>\<open>sep.join(xs)\<close>\<close>

fun join :: "string \<Rightarrow> string list \<Rightarrow> string" where
  "join sep [] = []"
| "join sep [x] = x"
| "join sep (x # y # ys) = x @ sep @ join sep (y # ys)"

text \<open>
  \<open>split_at P s\<close> cuts \<open>s\<close> at every character that satisfies \<open>P\<close> and keeps the empty
  pieces: \<open>s.split(c)\<close> for a one-character separator \<open>c\<close> is \<open>split_at (\<lambda>x. x = c) s\<close>.
\<close>

fun split_at :: "(char \<Rightarrow> bool) \<Rightarrow> string \<Rightarrow> string list" where
  "split_at P [] = [[]]"
| "split_at P (c # cs) =
     (if P c then [] # split_at P cs
      else (case split_at P cs of [] \<Rightarrow> [[c]] | w # ws \<Rightarrow> (c # w) # ws))"

definition is_space :: "char \<Rightarrow> bool" where
  "is_space c = (c \<in> set [CHR 0x09, CHR 0x0A, CHR 0x0B, CHR 0x0C, CHR 0x0D,
                            CHR 0x1C, CHR 0x1D, CHR 0x1E, CHR 0x1F, CHR '' ''])"

text \<open>\<open>s.split()\<close>: the maximal runs of characters that are not white space.\<close>

definition split_ws :: "string \<Rightarrow> string list" where
  "split_ws s = filter (\<lambda>w. w \<noteq> []) (split_at is_space s)"

text \<open>\<open>s.startswith(p)\<close>, \<open>s.endswith(p)\<close> and the substring test \<open>p in s\<close>.\<close>

fun startswith :: "string \<Rightarrow> string \<Rightarrow> bool" where
  "startswith s [] = True"
| "startswith [] (p # ps) = False"
| "startswith (c # cs) (p # ps) = (c = p \<and> startswith cs ps)"

definition endswith :: "string \<Rightarrow> string \<Rightarrow> bool" where
  "endswith s p = startswith (rev s) (rev p)"

fun contains :: "string \<Rightarrow> string \<Rightarrow> bool" where
  "contains [] p = (p = [])"
| "contains (c # cs) p = (startswith (c # cs) p \<or> contains cs p)"

text \<open>The slice \<open>s[i:j]\<close> for \<open>0 \<le> i \<le> j\<close>.\<close>

definition slice :: "nat \<Rightarrow> nat \<Rightarrow> 'a list \<Rightarrow> 'a list" where
  "slice i j s = take (j - i) (drop i s)"

text \<open>\<open>str(n)\<close> for an integer and the format \<open>{:02d}\<close>.\<close>

definition digit_char :: "nat \<Rightarrow> char" where
  "digit_char d = ''0123456789'' ! (d mod 10)"

fun dec_str :: "nat \<Rightarrow> string" where
  "dec_str n = (if n < 10 then [digit_char n] else dec_str (n div 10) @ [digit_char (n mod 10)])"

declare dec_str.simps [simp del]

definition str_int :: "int \<Rightarrow> string" where
  "str_int i = (if i < 0 then CHR ''-'' # dec_str (nat (- i)) else dec_str (nat i))"

definition fmt02d :: "int \<Rightarrow> string" where
  "fmt02d i = (if 0 \<le> i \<and> i < 10 then CHR ''0'' # str_int i else str_int i)"

text \<open>\<open>xs[i]\<close> for \<open>i \<ge> 0\<close>: an index past the end raises \<open>IndexError\<close>.\<close>

definition item :: "'a list \<Rightarrow> nat \<Rightarrow> py_error + 'a" where
  "item xs i = (if i < length xs then Inr (xs ! i) else Inl IndexError)"

text \<open>Sequencing of computations that may raise.\<close>

definition and_then :: "py_error + 'a \<Rightarrow> ('a \<Rightarrow> py_error + 'b) \<Rightarrow> py_error + 'b" where
  "and_then r f = (case r of Inl e \<Rightarrow> Inl e | Inr x \<Rightarrow> f x)"

text \<open>A \<open>for\<close> loop over a list whose body may raise and updates the state \<open>s\<close>.\<close>

fun for_each :: "('a \<Rightarrow> 's \<Rightarrow> py_error + 's) \<Rightarrow> 'a list \<Rightarrow> 's \<Rightarrow> py_error + 's" where
  "for_each body [] s = Inr s"
| "for_each body (x # xs) s = and_then (body x s) (for_each body xs)"

text \<open>
  A Python \<open>dict\<close> keeps its keys in insertion order: it is an association list, and
  \<open>d[k] = v\<close> is \<open>AList.update k v d\<close> (the value is replaced in place when \<open>k\<close> is
  present, the pair is added at the end otherwise). Reading \<open>d[k]\<close> raises \<open>KeyError\<close>
  when the key is absent.
\<close>

definition dict_get :: "('k \<times> 'v) list \<Rightarrow> 'k \<Rightarrow> py_error + 'v" where
  "dict_get d k = (case map_of d k of None \<Rightarrow> Inl KeyError | Some v \<Rightarrow> Inr v)"

section \<open>The filter normalizer\<close>

definition determine_filter_name :: "string \<Rightarrow> string" where
  "determine_filter_name raw_filter =
     (let raw_filter = lower raw_filter;
          filter_list = split_at (\<lambda>c. c = CHR '';'') raw_filter;
          output_filter_list = filter (\<lambda>filt. \<not> contains filt ''clear'') filter_list
      in if output_filter_list = [] then ''clear''
         else (let output_filter_list =
                     (if startswith (hd output_filter_list) ''pol''
                      then rev output_filter_list else output_filter_list)
               in join ''-'' output_filter_list))"

section \<open>The filename generators\<close>

type_synonym filename_dict = "(string \<times> string) list"

definition single_exposure_product_filename_generator :: "string list \<Rightarrow> py_error + filename_dict" where
  "single_exposure_product_filename_generator obs_info =
     and_then (item obs_info 5) (\<lambda>ipppssoot.
     and_then (item obs_info 6) (\<lambda>filetype.
       (let basename = ''hst_'' @ join ''_'' (take 5 obs_info) @ ''_'' @ take 8 ipppssoot
                         @ ''_'' @ filetype
        in Inr [(''image'', basename @ ''.fits'')])))"

definition filter_product_filename_generator :: "string list \<Rightarrow> py_error + filename_dict" where
  "filter_product_filename_generator obs_info =
     and_then (item obs_info 5) (\<lambda>ipppssoot.
       (let basename = ''hst_'' @ join ''_'' (take 5 obs_info) @ ''_'' @ take 6 ipppssoot
        in and_then (item obs_info 6) (\<lambda>filetype.
             Inr [(''image'', basename @ ''_'' @ filetype @ ''.fits''),
                  (''point source catalog'', basename @ ''_point-cat.ecsv''),
                  (''segment source catalog'', basename @ ''_segment-cat.ecsv'')])))"

definition total_detection_product_filename_generator :: "string list \<Rightarrow> py_error + filename_dict" where
  "total_detection_product_filename_generator obs_info =
     and_then (item obs_info 4) (\<lambda>ipppssoot.
       (let basename = ''hst_'' @ join ''_'' (take 4 obs_info) @ ''_total_'' @ take 6 ipppssoot
        in and_then (item obs_info 5) (\<lambda>filetype.
             Inr [(''image'', basename @ ''_'' @ filetype @ ''.fits''),
                  (''point source catalog'', basename @ ''_point-cat.ecsv''),
                  (''segment source catalog'', basename @ ''_segment-cat.ecsv'')])))"

text \<open>The mosaic generator reads \<open>obs_info[5]\<close> for the file type.\<close>

definition multivisit_mosaic_product_filename_generator :: "string list \<Rightarrow> py_error + filename_dict" where
  "multivisit_mosaic_product_filename_generator obs_info =
     (let basename = ''hst_mos'' @ join ''_'' (take 4 obs_info)
      in and_then (item obs_info 5) (\<lambda>filetype.
           Inr [(''image'', basename @ '' '' @ filetype @ ''.fits''),
                (''point source catalog'', basename @ ''_point-cat.ecsv''),
                (''segment source catalog'', basename @ ''_segment-cat.ecsv'')]))"

section \<open>The dispatcher\<close>

definition category_generator_mapping ::
  "(string \<times> (string list \<Rightarrow> py_error + filename_dict)) list" where
  "category_generator_mapping =
     [(''single exposure product'', single_exposure_product_filename_generator),
      (''filter product'', filter_product_filename_generator),
      (''total detection product'', total_detection_product_filename_generator),
      (''multivisit mosaic product'', multivisit_mosaic_product_filename_generator)]"

text \<open>
  The loop of \<open>run_generator\<close> stops at the first key that is a prefix of the category.
  When no key matches, \<open>category_key\<close> stays empty and \<open>generator_name\<close> is never
  bound, so the call on the last line raises \<open>UnboundLocalError\<close>.
\<close>

definition run_generator :: "string \<Rightarrow> string \<Rightarrow> py_error + filename_dict" where
  "run_generator product_category obs_info =
     (let found = find (\<lambda>(ikey, g). startswith product_category ikey) category_generator_mapping;
          category_key = (case found of None \<Rightarrow> [] | Some (ikey, g) \<Rightarrow> ikey);
          obs_info = split_at (\<lambda>c. c = CHR '' '') obs_info
      in and_then
           (if category_key \<noteq> ''multivisit mosaic product''
            then and_then (item obs_info 0) (\<lambda>proposal_id.
                   Inr (obs_info[0 := replicate (5 - length proposal_id) CHR ''0'' @ proposal_id]))
            else Inr obs_info)
           (\<lambda>obs_info.
              case found of None \<Rightarrow> Inl UnboundLocalError
              | Some (ikey, generator_name) \<Rightarrow> generator_name obs_info))"

section \<open>The manifest and the tree builder\<close>

text \<open>
  One row of the table that \<open>Table.read\<close> returns, with the column names of the source.
  The exposure time is never read by this module and is kept as the text of the manifest.
  \<open>interpret_obset_input\<close> adds the column \<open>instrument\<close>.
\<close>

record row =
  filename :: string
  proposal_id :: int
  program_id :: string
  obset_id :: int
  exptime :: string
  filters :: string
  detector :: string
  pathname :: string

record irow = row +
  instrument :: string

definition SEP_STR :: "nat \<Rightarrow> string" where
  "SEP_STR n = ''single exposure product '' @ fmt02d (int n)"

definition FP_STR :: "nat \<Rightarrow> string" where
  "FP_STR n = ''filter product '' @ fmt02d (int n)"

definition TDP_STR :: "nat \<Rightarrow> string" where
  "TDP_STR n = ''total detection product '' @ fmt02d (int n)"

definition INSTRUMENT_DICT :: "(char \<times> string) list" where
  "INSTRUMENT_DICT = [(CHR ''i'', ''WFC3''), (CHR ''j'', ''ACS''), (CHR ''o'', ''STIS''),
                      (CHR ''u'', ''WFPC2''), (CHR ''x'', ''FOC''), (CHR ''w'', ''WFPC'')]"

text \<open>
  \<open>s.find('_')\<close> is the index of the first underscore, or \<open>-1\<close>; the slice \<open>s[:-1]\<close>
  drops the last character and \<open>s[:i]\<close> for \<open>i \<ge> 0\<close> keeps the first \<open>i\<close> characters.
\<close>

definition find_char :: "char \<Rightarrow> string \<Rightarrow> int" where
  "find_char c s = (if c \<in> set s then int (length (takeWhile (\<lambda>x. x \<noteq> c) s)) else - 1)"

definition slice_to :: "int \<Rightarrow> 'a list \<Rightarrow> 'a list" where
  "slice_to i s = (if i < 0 then take (nat (int (length s) + i)) s else take (nat i) s)"

type_synonym exposure = "string \<times> string"

definition create_row_info :: "irow \<Rightarrow> exposure" where
  "create_row_info r =
     (let info_list = [str_int (proposal_id r), fmt02d (obset_id r), instrument r,
                       detector r, filters r,
                       slice_to (find_char CHR ''_'' (filename r)) (filename r)]
      in (join '' '' (map upper info_list), filename r))"

type_synonym filt_tree = "(string \<times> exposure list) list"
type_synonym det_tree = "(string \<times> filt_tree) list"

text \<open>The body of the loop of \<open>build_obset_tree\<close>, for one row.\<close>

definition add_row :: "det_tree \<Rightarrow> irow \<Rightarrow> det_tree" where
  "add_row obset_tree r =
     (let det = detector r;
          orig_filt = filters r;
          filt = determine_filter_name orig_filt;
          r = r\<lparr>filters := filt\<rparr>;
          e = create_row_info r
      in case map_of obset_tree det of
           None \<Rightarrow> AList.update det [(filt, [e])] obset_tree
         | Some det_node \<Rightarrow>
             (case map_of det_node filt of
                None \<Rightarrow> AList.update det (AList.update filt [e] det_node) obset_tree
              | Some l \<Rightarrow> AList.update det (AList.update filt (l @ [e]) det_node) obset_tree))"

definition build_obset_tree :: "irow list \<Rightarrow> det_tree" where
  "build_obset_tree obset_table = foldl add_row [] obset_table"

section \<open>The product parser\<close>

record product =
  info :: string
  files :: "string list"

type_synonym products = "(string \<times> product) list"

record pstate =
  obset_products :: products
  prev_det_indx :: nat
  det_indx :: nat
  filt_indx :: nat
  sep_indx :: nat
  filetype :: string

text \<open>Lines 145 to 149: the file type is read again when the detector index has moved.\<close>

definition detect_filetype :: "string \<Rightarrow> string" where
  "detect_filetype fname =
     (if endswith (lower (slice 10 13 fname)) ''flt'' then ''drz'' else ''drc'')"

definition update_filetype :: "exposure \<Rightarrow> pstate \<Rightarrow> pstate" where
  "update_filetype e s =
     (if det_indx s \<noteq> prev_det_indx s
      then s\<lparr>filetype := detect_filetype (snd e), prev_det_indx := det_indx s\<rparr>
      else s)"

text \<open>\<open>obset_products[k]['files'].append(f)\<close>\<close>

definition append_file :: "string \<Rightarrow> string \<Rightarrow> products \<Rightarrow> py_error + products" where
  "append_file k f prods =
     and_then (dict_get prods k) (\<lambda>p. Inr (AList.update k (p\<lparr>files := files p @ [f]\<rparr>) prods))"

text \<open>Lines 155 to 158: the \<open>info\<close> of the filter product is set while it is still empty.\<close>

definition init_fp_info :: "string \<Rightarrow> exposure \<Rightarrow> string \<Rightarrow> products \<Rightarrow> py_error + products" where
  "init_fp_info fprod e ft prods =
     and_then (dict_get prods fprod) (\<lambda>p.
       if info p = []
       then (let fp_info = lower (join '' '' (split_ws (fst e)) @ '' '' @ ft)
             in and_then (dict_get prods fprod) (\<lambda>p. Inr (AList.update fprod (p\<lparr>info := fp_info\<rparr>) prods)))
       else Inr prods)"

text \<open>
  Lines 162 to 164: the \<open>info\<close> of the total detection product. \<open>split()[-1]\<close> raises
  \<open>IndexError\<close> when the info string has no field.
\<close>

definition init_tdp_info :: "string \<Rightarrow> exposure \<Rightarrow> string \<Rightarrow> products \<Rightarrow> py_error + products" where
  "init_tdp_info tdp e ft prods =
     and_then (dict_get prods tdp) (\<lambda>p.
       if info p = []
       then (let fields = split_ws (fst e)
             in if fields = [] then Inl IndexError
                else (let tdp_info = lower (join '' '' (take (length fields - 2) fields) @ '' ''
                                            @ last fields @ '' '' @ ft)
                      in and_then (dict_get prods tdp) (\<lambda>p.
                           Inr (AList.update tdp (p\<lparr>info := tdp_info\<rparr>) prods))))
       else Inr prods)"

text \<open>The body of the innermost loop, for one exposure \<open>(info, filename)\<close>.\<close>

definition exposure_step :: "string \<Rightarrow> string \<Rightarrow> exposure \<Rightarrow> pstate \<Rightarrow> py_error + pstate" where
  "exposure_step tdp fprod e s =
     (let s = update_filetype e s;
          sep = SEP_STR (sep_indx s);
          sep_info = lower (fst e @ '' '' @ filetype s);
          prods = AList.update sep \<lparr>info = sep_info, files = [snd e]\<rparr> (obset_products s)
      in and_then (init_fp_info fprod e (filetype s) prods) (\<lambda>prods.
         and_then (append_file fprod (snd e) prods) (\<lambda>prods.
         and_then (init_tdp_info tdp e (filetype s) prods) (\<lambda>prods.
         and_then (append_file tdp (snd e) prods) (\<lambda>prods.
           Inr (s\<lparr>obset_products := prods, sep_indx := sep_indx s + 1\<rparr>))))))"

text \<open>The body of the loop over the filters of one detector.\<close>

definition filter_step :: "string \<Rightarrow> exposure list \<Rightarrow> pstate \<Rightarrow> py_error + pstate" where
  "filter_step tdp filter_files s =
     (let fprod = FP_STR (filt_indx s);
          s = s\<lparr>obset_products := AList.update fprod \<lparr>info = [], files = []\<rparr> (obset_products s),
                filt_indx := filt_indx s + 1\<rparr>
      in for_each (exposure_step tdp fprod) filter_files s)"

text \<open>The body of the loop over the detectors.\<close>

definition detector_step :: "filt_tree \<Rightarrow> pstate \<Rightarrow> py_error + pstate" where
  "detector_step ftree s =
     (let tdp = TDP_STR (det_indx s);
          s = s\<lparr>obset_products := AList.update tdp \<lparr>info = [], files = []\<rparr> (obset_products s),
                det_indx := det_indx s + 1\<rparr>
      in for_each (filter_step tdp) (map snd ftree) s)"

definition initial_pstate :: pstate where
  "initial_pstate = \<lparr>obset_products = [], prev_det_indx = 0, det_indx = 0, filt_indx = 0,
                      sep_indx = 0, filetype = []\<rparr>"

definition parse_obset_tree :: "det_tree \<Rightarrow> py_error + products" where
  "parse_obset_tree dtree =
     and_then (for_each detector_step (map snd dtree) initial_pstate)
       (\<lambda>s. Inr (obset_products s))"

section \<open>The entry point\<close>

text \<open>
  \<open>interpret_obset_input\<close> takes the table as \<open>Table.read\<close> (a function of astropy) returns
  it. The instrument is looked up from the first character of the first file name.
\<close>

definition interpret_obset_input :: "row list \<Rightarrow> py_error + products" where
  "interpret_obset_input obset_table =
     and_then (item obset_table 0) (\<lambda>r0.
     and_then (item (filename r0) 0) (\<lambda>c.
     and_then (dict_get INSTRUMENT_DICT c) (\<lambda>instr.
       (let obset_table = map (\<lambda>r. row.extend r \<lparr>instrument = instr\<rparr>) obset_table;
            obset_tree = build_obset_tree obset_table
        in parse_obset_tree obset_tree))))"

section \<open>What the parser is expected to return\<close>

text \<open>
  The functions of this section are not part of the source: they describe, as plain list
  functions of the tree, the products that the loops of \<open>parse_obset_tree\<close> build, and are
  what the theorems about the parser compare its result with. The tree is walked detector
  by detector, filter by filter, exposure by exposure.
\<close>

definition detector_exposures :: "filt_tree \<Rightarrow> exposure list" where
  "detector_exposures ftree = concat (map snd ftree)"

definition tree_exposures :: "det_tree \<Rightarrow> exposure list" where
  "tree_exposures dtree = concat (map (\<lambda>d. detector_exposures (snd d)) dtree)"

definition tree_groups :: "det_tree \<Rightarrow> exposure list list" where
  "tree_groups dtree = concat (map (\<lambda>d. map snd (snd d)) dtree)"

text \<open>The three \<open>info\<close> strings that line 151, line 157 and line 163 compute.\<close>

definition sep_info :: "string \<Rightarrow> exposure \<Rightarrow> string" where
  "sep_info ft e = lower (fst e @ '' '' @ ft)"

definition fp_info :: "string \<Rightarrow> exposure \<Rightarrow> string" where
  "fp_info ft e = lower (join '' '' (split_ws (fst e)) @ '' '' @ ft)"

definition tdp_info :: "string \<Rightarrow> exposure \<Rightarrow> string" where
  "tdp_info ft e =
     (let fields = split_ws (fst e)
      in lower (join '' '' (take (length fields - 2) fields) @ '' '' @ last fields @ '' '' @ ft))"

definition sep_product :: "string \<Rightarrow> exposure \<Rightarrow> product" where
  "sep_product ft e = \<lparr>info = sep_info ft e, files = [snd e]\<rparr>"

definition empty_product :: product where
  "empty_product = \<lparr>info = [], files = []\<rparr>"

text \<open>
  A product after the exposures \<open>es\<close> have been added to it: the \<open>info\<close> is set from the
  first exposure if it was still empty, and every file name is appended.
\<close>

definition add_exposures :: "(exposure \<Rightarrow> string) \<Rightarrow> exposure list \<Rightarrow> product \<Rightarrow> product" where
  "add_exposures mk es p =
     (case es of [] \<Rightarrow> p
      | e # _ \<Rightarrow> \<lparr>info = (if info p = [] then mk e else info p), files = files p @ map snd es\<rparr>)"

text \<open>The file type of a detector is read from the first exposure of the detector.\<close>

definition detector_filetype :: "exposure list \<Rightarrow> string" where
  "detector_filetype es = (case es of [] \<Rightarrow> [] | e # _ \<Rightarrow> detect_filetype (snd e))"

definition expected_sep :: "det_tree \<Rightarrow> product list" where
  "expected_sep dtree =
     concat (map (\<lambda>d. map (sep_product (detector_filetype (detector_exposures (snd d))))
                         (detector_exposures (snd d))) dtree)"

definition expected_fp :: "det_tree \<Rightarrow> product list" where
  "expected_fp dtree =
     concat (map (\<lambda>d. map (\<lambda>g. add_exposures (fp_info (detector_filetype (detector_exposures (snd d))))
                                  (snd g) empty_product) (snd d)) dtree)"

definition expected_tdp :: "det_tree \<Rightarrow> product list" where
  "expected_tdp dtree =
     map (\<lambda>d. add_exposures (tdp_info (detector_filetype (detector_exposures (snd d))))
                 (detector_exposures (snd d)) empty_product) dtree"

text \<open>
  \<open>split()[-1]\<close> needs a field: the parser is given trees whose info strings are not blank,
  as the ones of \<open>create_row_info\<close> are.
\<close>

definition well_formed :: "det_tree \<Rightarrow> bool" where
  "well_formed dtree = list_all (\<lambda>e. split_ws (fst e) \<noteq> []) (tree_exposures dtree)"

text \<open>The number that a decimal string denotes, \<open>int(s)\<close>.\<close>

definition digit_val :: "char \<Rightarrow> nat" where
  "digit_val c = (case map_of (zip ''0123456789'' [0, 1, 2, 3, 4, 5, 6, 7, 8, 9]) c of
                    None \<Rightarrow> 0 | Some d \<Rightarrow> d)"

definition dec_val :: "string \<Rightarrow> nat" where
  "dec_val s = foldl (\<lambda>a c. 10 * a + digit_val c) 0 s"

text \<open>A tree as \<open>build_obset_tree\<close> returns it: two detectors, three filters, four exposures.\<close>

definition example_tree :: det_tree where
  "example_tree =
     [(''IR'', [(''f110w'', [(''11150 70 WFC3 IR F110W IA1S70JTQ'', ''ia1s70jtq_flt.fits''),
                             (''11150 70 WFC3 IR F110W IA1S70JKQ'', ''ia1s70jkq_flt.fits'')]),
                (''f160w'', [(''11150 70 WFC3 IR F160W IA1S70JWQ'', ''ia1s70jwq_flt.fits'')])]),
      (''UVIS'', [(''f606w'', [(''11150 70 WFC3 UVIS F606W IA1S70JMQ'', ''ia1s70jmq_flc.fits'')])])]"

section \<open>Example data\<close>

definition example_row :: "string \<Rightarrow> string \<Rightarrow> string \<Rightarrow> row" where
  "example_row f flt d = \<lparr>filename = f, proposal_id = 11150, program_id = ''A1S'', obset_id = 70,
     exptime = ''149.232269'', filters = flt, detector = d, pathname = ''/ifs/archive''\<rparr>"

(*DEFS-END*)

section \<open>Basic facts about the string functions\<close>

lemma split_at_not_Nil: "split_at P s \<noteq> []"
  by (induction s) (auto split: list.splits)

lemma startswith_Cons: "startswith s (p # ps) \<longleftrightarrow> (\<exists>cs. s = p # cs \<and> startswith cs ps)"
  by (cases s) auto

lemma item_split_at_0: "item (split_at P s) 0 = Inr (hd (split_at P s))"
  using split_at_not_Nil [of P s] by (cases "split_at P s") (auto simp: item_def)

lemma update_0_split_at: "(split_at P s)[0 := v] = v # tl (split_at P s)"
  using split_at_not_Nil [of P s] by (cases "split_at P s") auto

lemma not_startswith:
  "startswith s p \<Longrightarrow> p \<noteq> [] \<Longrightarrow> q \<noteq> [] \<Longrightarrow> hd p \<noteq> hd q \<Longrightarrow> \<not> startswith s q"
  by (cases s; cases p; cases q) auto

lemma find_char_absent: "c \<notin> set s \<Longrightarrow> slice_to (find_char c s) s = butlast s"
proof -
  assume "c \<notin> set s"
  then have "slice_to (find_char c s) s = take (nat (int (length s) + - 1)) s"
    by (simp add: find_char_def slice_to_def)
  also have "nat (int (length s) + - 1) = length s - 1" by arith
  finally show ?thesis by (simp only: butlast_conv_take)
qed

lemma find_char_present: "c \<in> set s \<Longrightarrow> slice_to (find_char c s) s = takeWhile (\<lambda>x. x \<noteq> c) s"
  using takeWhile_eq_take [of "\<lambda>x. x \<noteq> c" s] by (simp add: find_char_def slice_to_def)

section \<open>The filename generators and the dispatcher\<close>

text \<open>
  Claim C1. The mosaic generator is documented to take the five fields group id,
  instrument, detector, filter and file type, the file type being \<open>obs_info[4]\<close>. The code
  reads \<open>obs_info[5]\<close>, so on every list of five fields it raises \<open>IndexError\<close> and returns
  no mapping at all.
\<close>

theorem multivisit_mosaic_five_fields:
  "length obs_info = 5 \<Longrightarrow> multivisit_mosaic_product_filename_generator obs_info = Inl IndexError"
  by (simp add: multivisit_mosaic_product_filename_generator_def item_def and_then_def)

theorem multivisit_mosaic_five_fields_witness:
  "length [''0042'', ''acs'', ''wfc'', ''f606w'', ''drz''] = 5 \<and>
   multivisit_mosaic_product_filename_generator [''0042'', ''acs'', ''wfc'', ''f606w'', ''drz'']
     = Inl IndexError"
  using multivisit_mosaic_five_fields [of "[''0042'', ''acs'', ''wfc'', ''f606w'', ''drz'']"]
  by simp

text \<open>
  Claim C3. When none of the four registered category phrases is a prefix of the category,
  \<open>run_generator\<close> raises: the generator variable was never bound, which Python reports as
  \<open>UnboundLocalError\<close>. No mapping is returned.
\<close>

theorem run_generator_unrecognized:
  assumes "\<not> startswith product_category ''single exposure product''"
    and "\<not> startswith product_category ''filter product''"
    and "\<not> startswith product_category ''total detection product''"
    and "\<not> startswith product_category ''multivisit mosaic product''"
  shows "run_generator product_category obs_info = Inl UnboundLocalError"
  using assms
  by (simp add: run_generator_def category_generator_mapping_def item_split_at_0 and_then_def)

theorem run_generator_unrecognized_witness:
  "\<not> startswith ''bogus product 00'' ''single exposure product'' \<and>
   \<not> startswith ''bogus product 00'' ''filter product'' \<and>
   \<not> startswith ''bogus product 00'' ''total detection product'' \<and>
   \<not> startswith ''bogus product 00'' ''multivisit mosaic product'' \<and>
   run_generator ''bogus product 00'' ''11150 70 wfc3 ir f110w ia1s70jtq drz'' = Inl UnboundLocalError"
proof -
  have a: "\<not> startswith ''bogus product 00'' ''single exposure product''"
    and b: "\<not> startswith ''bogus product 00'' ''filter product''"
    and c: "\<not> startswith ''bogus product 00'' ''total detection product''"
    and d: "\<not> startswith ''bogus product 00'' ''multivisit mosaic product''"
    by simp_all
  show ?thesis
    by (intro conjI a b c d run_generator_unrecognized [OF a b c d])
qed

lemma run_generator_found:
  assumes "(k, g) \<in> set category_generator_mapping" and "startswith product_category k"
  shows "run_generator product_category obs_info =
           (if k = ''multivisit mosaic product'' then g (split_at (\<lambda>c. c = CHR '' '') obs_info)
            else g ((replicate (5 - length (hd (split_at (\<lambda>c. c = CHR '' '') obs_info))) CHR ''0''
                       @ hd (split_at (\<lambda>c. c = CHR '' '') obs_info))
                    # tl (split_at (\<lambda>c. c = CHR '' '') obs_info)))"
proof -
  note defs = run_generator_def category_generator_mapping_def and_then_def item_split_at_0 Let_def
    update_0_split_at
  from assms(1) have
    "k = ''single exposure product'' \<and> g = single_exposure_product_filename_generator \<or>
     k = ''filter product'' \<and> g = filter_product_filename_generator \<or>
     k = ''total detection product'' \<and> g = total_detection_product_filename_generator \<or>
     k = ''multivisit mosaic product'' \<and> g = multivisit_mosaic_product_filename_generator"
    by (simp add: category_generator_mapping_def)
  then show ?thesis
  proof (elim disjE conjE)
    assume sep: "k = ''single exposure product''" "g = single_exposure_product_filename_generator"
    with assms(2) have "startswith product_category ''single exposure product''" by simp
    then show ?thesis unfolding sep by (simp add: defs)
  next
    assume fp: "k = ''filter product''" "g = filter_product_filename_generator"
    with assms(2) have h: "startswith product_category ''filter product''" by simp
    have "\<not> startswith product_category ''single exposure product''"
      by (rule not_startswith [OF h]) simp_all
    with h show ?thesis unfolding fp by (simp add: defs)
  next
    assume tdp: "k = ''total detection product''" "g = total_detection_product_filename_generator"
    with assms(2) have h: "startswith product_category ''total detection product''" by simp
    have "\<not> startswith product_category ''single exposure product''"
      and "\<not> startswith product_category ''filter product''"
      by (rule not_startswith [OF h]; simp)+
    with h show ?thesis unfolding tdp by (simp add: defs)
  next
    assume mvm: "k = ''multivisit mosaic product''" "g = multivisit_mosaic_product_filename_generator"
    with assms(2) have h: "startswith product_category ''multivisit mosaic product''" by simp
    have "\<not> startswith product_category ''single exposure product''"
      and "\<not> startswith product_category ''filter product''"
      and "\<not> startswith product_category ''total detection product''"
      by (rule not_startswith [OF h]; simp)+
    with h show ?thesis unfolding mvm by (simp add: defs)
  qed
qed

lemma pad_length: "length (replicate (5 - length x) c @ x) = max 5 (length x)"
  by (simp add: max_def)

lemma pad_four: "length x = 4 \<Longrightarrow> replicate (5 - length x) c @ x = c # x"
  by simp

text \<open>
  Claim C9. For a category that starts with one of the registered phrases, \<open>run_generator\<close>
  calls the generator of that phrase on the fields of the info string, split at single
  spaces. Unless the phrase is the mosaic one, the first field is first padded on the left
  with zeros to five characters (a field of four characters gets exactly one zero, a field
  of five or more is left as it is); for the mosaic phrase the fields are passed unchanged.
\<close>

theorem run_generator_pads_proposal_id:
  assumes "(k, g) \<in> set category_generator_mapping" and "startswith product_category k"
  shows "(let fields = split_at (\<lambda>c. c = CHR '' '') obs_info;
              padded = replicate (5 - length (hd fields)) CHR ''0'' @ hd fields
          in run_generator product_category obs_info =
               (if k = ''multivisit mosaic product'' then g fields else g (padded # tl fields)) \<and>
             length padded = max 5 (length (hd fields)) \<and>
             (length (hd fields) = 4 \<longrightarrow> padded = CHR ''0'' # hd fields))"
  unfolding Let_def
  by (intro conjI impI run_generator_found [OF assms] pad_length pad_four)

theorem run_generator_pads_proposal_id_witness:
  "(''single exposure product'', single_exposure_product_filename_generator)
      \<in> set category_generator_mapping \<and>
   startswith ''single exposure product 00'' ''single exposure product'' \<and>
   length (hd (split_at (\<lambda>c. c = CHR '' '') ''1115 70 wfc3 ir f110w ia1s70jtq drz'')) = 4 \<and>
   (let fields = split_at (\<lambda>c. c = CHR '' '') ''1115 70 wfc3 ir f110w ia1s70jtq drz'';
        padded = replicate (5 - length (hd fields)) CHR ''0'' @ hd fields
    in run_generator ''single exposure product 00'' ''1115 70 wfc3 ir f110w ia1s70jtq drz'' =
         (if ''single exposure product'' = ''multivisit mosaic product''
          then single_exposure_product_filename_generator fields
          else single_exposure_product_filename_generator (padded # tl fields)) \<and>
       length padded = max 5 (length (hd fields)) \<and>
       (length (hd fields) = 4 \<longrightarrow> padded = CHR ''0'' # hd fields))"
proof -
  have a: "(''single exposure product'', single_exposure_product_filename_generator)
      \<in> set category_generator_mapping"
    by (simp add: category_generator_mapping_def)
  have b: "startswith ''single exposure product 00'' ''single exposure product''"
    by simp
  have c: "length (hd (split_at (\<lambda>c. c = CHR '' '') ''1115 70 wfc3 ir f110w ia1s70jtq drz'')) = 4"
    by code_simp
  show ?thesis
    by (intro conjI a b c run_generator_pads_proposal_id [OF a b])
qed

section \<open>The info string of a row\<close>

text \<open>
  Claim C10. The last field of the info string is the upper-cased file name cut at its
  first underscore; when the file name has no underscore, \<open>find\<close> gives \<open>-1\<close> and the
  slice drops the last character of the file name instead.
\<close>

theorem create_row_info_filename_field:
  "create_row_info r =
     (join '' '' (map upper [str_int (proposal_id r), fmt02d (obset_id r), instrument r,
                             detector r, filters r,
                             (if CHR ''_'' \<in> set (filename r)
                              then takeWhile (\<lambda>x. x \<noteq> CHR ''_'') (filename r)
                              else butlast (filename r))]),
      filename r)"
  by (simp add: create_row_info_def find_char_absent find_char_present)

theorem create_row_info_filename_field_witness:
  "create_row_info (row.extend (example_row ''ia1s70jtq.fits'' ''f110w'' ''IR'') \<lparr>instrument = ''WFC3''\<rparr>)
     = (''11150 70 WFC3 IR F110W IA1S70JTQ.FIT'', ''ia1s70jtq.fits'') \<and>
   create_row_info (row.extend (example_row ''ia1s70jtq_flt.fits'' ''f110w'' ''IR'') \<lparr>instrument = ''WFC3''\<rparr>)
     = (''11150 70 WFC3 IR F110W IA1S70JTQ'', ''ia1s70jtq_flt.fits'')"
  using create_row_info_filename_field [of "row.extend (example_row ''ia1s70jtq.fits'' ''f110w'' ''IR'') \<lparr>instrument = ''WFC3''\<rparr>"]
    create_row_info_filename_field [of "row.extend (example_row ''ia1s70jtq_flt.fits'' ''f110w'' ''IR'') \<lparr>instrument = ''WFC3''\<rparr>"]
  by (simp add: example_row_def row.defs upper_def upper_char_def str_int_def fmt02d_def
      dec_str.simps digit_char_def)

section \<open>The entry point\<close>

text \<open>
  Claim C4, as the code has it. When the first file name of the manifest starts with a
  character that is not one of the six keys of \<open>INSTRUMENT_DICT\<close>, the bare lookup
  \<open>INSTRUMENT_DICT[...]\<close> raises the built-in \<open>KeyError\<close> of Python before the tree is
  built, and no mapping is returned.
\<close>

theorem interpret_obset_input_unrecognized_instrument:
  assumes "obset_table = r0 # rest" and "filename r0 = c # cs"
    and "c \<notin> set ''ijouxw''"
  shows "interpret_obset_input obset_table = Inl KeyError"
  using assms
  by (simp add: interpret_obset_input_def item_def and_then_def dict_get_def INSTRUMENT_DICT_def)

theorem interpret_obset_input_unrecognized_instrument_witness:
  "[example_row ''Ia1s70jtq_flt.fits'' ''F110W'' ''IR''] = example_row ''Ia1s70jtq_flt.fits'' ''F110W'' ''IR'' # [] \<and>
   filename (example_row ''Ia1s70jtq_flt.fits'' ''F110W'' ''IR'') = CHR ''I'' # ''a1s70jtq_flt.fits'' \<and>
   CHR ''I'' \<notin> set ''ijouxw'' \<and>
   interpret_obset_input [example_row ''Ia1s70jtq_flt.fits'' ''F110W'' ''IR''] = Inl KeyError"
  using interpret_obset_input_unrecognized_instrument
    [of "[example_row ''Ia1s70jtq_flt.fits'' ''F110W'' ''IR'']" "example_row ''Ia1s70jtq_flt.fits'' ''F110W'' ''IR''"
        "[]" "CHR ''I''" "''a1s70jtq_flt.fits''"]
  by (simp add: example_row_def)

text \<open>
  Claim C4, as it is worded. The module defines no exception of its own and has no
  \<open>raise\<close>: the failure on an unknown instrument is the \<open>KeyError\<close> of a dictionary lookup,
  the very value that a product identifier missing from the products gives. The result of
  the entry point on a manifest with the unknown instrument letter \<open>I\<close> is equal to the
  result of appending a file to a product that does not exist, so the condition is not
  distinct from the other failed lookups of the module.
\<close>

theorem unrecognized_instrument_error_not_distinct:
  "interpret_obset_input [example_row ''Ia1s70jtq_flt.fits'' ''F110W'' ''IR''] = Inl KeyError \<and>
   append_file ''filter product 00'' ''ia1s70jtq_flt.fits'' [] = Inl KeyError \<and>
   interpret_obset_input [example_row ''Ia1s70jtq_flt.fits'' ''F110W'' ''IR'']
     = append_file ''filter product 00'' ''ia1s70jtq_flt.fits'' []"
  by (simp add: interpret_obset_input_def item_def and_then_def dict_get_def INSTRUMENT_DICT_def
      example_row_def append_file_def)

section \<open>The filter normalizer\<close>

text \<open>Claim C7. The four documented examples of \<open>determine_filter_name\<close>.\<close>

theorem determine_filter_name_examples:
  "determine_filter_name ''F110W;CLEAR2L'' = ''f110w'' \<and>
   determine_filter_name ''CLEAR1L;CLEAR2L'' = ''clear'' \<and>
   determine_filter_name ''F606W;POL60'' = ''f606w-pol60'' \<and>
   determine_filter_name ''POL60;F606W'' = ''f606w-pol60''"
  by code_simp

lemma lower_char_idem: "lower_char (lower_char c) = lower_char c"
  by (simp add: lower_char_def)

lemma lower_idem: "lower (lower s) = lower s"
  by (simp add: lower_def lower_char_idem)

lemma lower_fixed: "(\<And>c. c \<in> set s \<Longrightarrow> lower_char c = c) \<Longrightarrow> lower s = s"
  by (simp add: lower_def map_idI)

lemma split_at_chars: "w \<in> set (split_at P s) \<Longrightarrow> c \<in> set w \<Longrightarrow> c \<in> set s \<and> \<not> P c"
proof (induction s arbitrary: w)
  case Nil
  then show ?case by simp
next
  case (Cons a s)
  show ?case
  proof (cases "P a")
    case True
    with Cons.prems have "w \<in> set (split_at P s)" by auto
    with Cons.IH Cons.prems(2) show ?thesis by auto
  next
    case False
    then obtain v vs where sp: "split_at P s = v # vs"
      using split_at_not_Nil [of P s] by (cases "split_at P s") auto
    with False Cons.prems(1) have "w = a # v \<or> w \<in> set vs" by auto
    then show ?thesis
    proof
      assume "w = a # v"
      with Cons.prems(2) have "c = a \<or> c \<in> set v" by auto
      then show ?thesis using False Cons.IH [of v] sp by auto
    next
      assume "w \<in> set vs"
      then show ?thesis using Cons.IH [of w] sp Cons.prems(2) by auto
    qed
  qed
qed

lemma split_at_none: "(\<And>c. c \<in> set s \<Longrightarrow> \<not> P c) \<Longrightarrow> split_at P s = [s]"
  by (induction s) auto

lemma set_join: "c \<in> set (join sep ws) \<Longrightarrow> c \<in> set sep \<or> (\<exists>w \<in> set ws. c \<in> set w)"
  by (induction sep ws rule: join.induct) auto

lemma startswith_append_sep:
  "startswith (x @ c # y) p \<Longrightarrow> c \<notin> set p \<Longrightarrow> startswith x p"
proof (induction x arbitrary: p)
  case Nil
  then show ?case by (cases p) auto
next
  case (Cons a x)
  then show ?case by (cases p) auto
qed

lemma contains_append_sep:
  "contains (x @ c # y) p \<Longrightarrow> c \<notin> set p \<Longrightarrow> contains x p \<or> contains y p"
proof (induction x)
  case Nil
  then have "startswith (c # y) p \<or> contains y p" by simp
  then show ?case
  proof
    assume "startswith (c # y) p"
    with Nil.prems(2) have "p = []" by (cases p) auto
    then show ?thesis by simp
  qed simp
next
  case (Cons a x)
  then have "startswith ((a # x) @ c # y) p \<or> contains (x @ c # y) p" by simp
  then show ?case
  proof
    assume "startswith ((a # x) @ c # y) p"
    then have "startswith (a # x) p" using Cons.prems(2) by (rule startswith_append_sep)
    then show ?thesis by simp
  next
    assume "contains (x @ c # y) p"
    with Cons show ?thesis by auto
  qed
qed

lemma contains_join:
  "contains (join [c] ws) p \<Longrightarrow> c \<notin> set p \<Longrightarrow> p \<noteq> [] \<Longrightarrow> \<exists>w \<in> set ws. contains w p"
proof (induction "[c]" ws rule: join.induct)
  case 1
  then show ?case by simp
next
  case (2 x)
  then show ?case by simp
next
  case (3 x y ys)
  from 3(2) have "contains (x @ c # join [c] (y # ys)) p" by simp
  then have "contains x p \<or> contains (join [c] (y # ys)) p"
    using 3(3) by (rule contains_append_sep)
  with 3 show ?case by auto
qed

lemma determine_filter_name_fixed:
  assumes ne: "ws \<noteq> []"
    and low: "\<And>w c. w \<in> set ws \<Longrightarrow> c \<in> set w \<Longrightarrow> lower_char c = c"
    and semi: "\<And>w. w \<in> set ws \<Longrightarrow> CHR '';'' \<notin> set w"
    and clear: "\<And>w. w \<in> set ws \<Longrightarrow> \<not> contains w ''clear''"
  shows "determine_filter_name (join ''-'' ws) = join ''-'' ws"
proof -
  let ?r = "join ''-'' ws"
  have chars: "c \<in> set ?r \<Longrightarrow> c = CHR ''-'' \<or> (\<exists>w \<in> set ws. c \<in> set w)" for c
    using set_join [of c "''-''" ws] by simp
  have "lower_char CHR ''-'' = CHR ''-''" by (simp add: lower_char_def)
  with chars low have "lower_char c = c" if "c \<in> set ?r" for c
    using that by blast
  then have l: "lower ?r = ?r" by (rule lower_fixed)
  have "c \<noteq> CHR '';''" if "c \<in> set ?r" for c
    using chars [OF that] semi by auto
  then have s: "split_at (\<lambda>c. c = CHR '';'') ?r = [?r]"
    by (intro split_at_none) blast
  have "CHR ''-'' \<notin> set ''clear''" and "''clear'' \<noteq> []" by simp_all
  then have "\<exists>w \<in> set ws. contains w ''clear''" if "contains ?r ''clear''"
    using contains_join [of "CHR ''-''" ws "''clear''"] that by simp
  with clear have c: "\<not> contains ?r ''clear''" by blast
  show ?thesis
    unfolding determine_filter_name_def l s Let_def using c by simp
qed

text \<open>
  Claim C8. The filter normalizer is idempotent: its result is either \<open>clear\<close> or the
  pieces that survive, joined with \<open>-\<close>; such a result is already in lower case, has no
  \<open>;\<close> and no \<open>clear\<close> in it, so normalizing it again returns it unchanged.
\<close>

theorem determine_filter_name_idempotent:
  "determine_filter_name (determine_filter_name s) = determine_filter_name s"
proof -
  define ps where "ps = split_at (\<lambda>c. c = CHR '';'') (lower s)"
  define out where "out = filter (\<lambda>filt. \<not> contains filt ''clear'') ps"
  define ws where "ws = (if startswith (hd out) ''pol'' then rev out else out)"
  have sub: "set ws \<subseteq> set ps" and wout: "set ws = set out"
    by (auto simp: ws_def out_def)
  show ?thesis
  proof (cases "out = []")
    case True
    then have "determine_filter_name s = ''clear''"
      by (simp add: determine_filter_name_def ps_def out_def Let_def)
    moreover have "determine_filter_name ''clear'' = ''clear''" by code_simp
    ultimately show ?thesis by simp
  next
    case False
    then have d: "determine_filter_name s = join ''-'' ws"
      by (simp add: determine_filter_name_def ps_def out_def ws_def Let_def)
    from False have ne: "ws \<noteq> []" by (simp add: ws_def)
    have low: "lower_char c = c" if "w \<in> set ws" "c \<in> set w" for w c
    proof -
      from that sub have "c \<in> set (lower s)"
        using split_at_chars [of w "\<lambda>c. c = CHR '';''" "lower s" c] by (auto simp: ps_def)
      then show ?thesis by (auto simp: lower_def lower_char_idem)
    qed
    have semi: "CHR '';'' \<notin> set w" if "w \<in> set ws" for w
      using that sub split_at_chars [of w "\<lambda>c. c = CHR '';''" "lower s" "CHR '';''"]
      by (auto simp: ps_def)
    have clear: "\<not> contains w ''clear''" if "w \<in> set ws" for w
      using that wout by (simp add: out_def)
    show ?thesis unfolding d
      by (rule determine_filter_name_fixed [OF ne low semi clear])
  qed
qed

section \<open>The product identifiers\<close>

lemma digit_val_digit_char: "d < 10 \<Longrightarrow> digit_val (digit_char d) = d"
proof -
  assume "d < 10"
  then have "d \<in> {0, 1, 2, 3, 4, 5, 6, 7, 8, 9}" by auto
  then show ?thesis
    by (elim insertE emptyE) (simp_all add: digit_val_def digit_char_def)
qed

lemma dec_val_snoc: "dec_val (s @ [c]) = 10 * dec_val s + digit_val c"
  by (simp add: dec_val_def)

lemma dec_val_dec_str: "dec_val (dec_str n) = n"
proof (induction n rule: dec_str.induct)
  case (1 n)
  show ?case
  proof (cases "n < 10")
    case True
    then show ?thesis
      using digit_val_digit_char [of n] by (simp add: dec_str.simps [of n] dec_val_def)
  next
    case False
    then have "dec_val (dec_str n) = 10 * dec_val (dec_str (n div 10)) + digit_val (digit_char (n mod 10))"
      by (simp add: dec_str.simps [of n] dec_val_snoc)
    also have "\<dots> = 10 * (n div 10) + n mod 10"
      using 1 False digit_val_digit_char [of "n mod 10"] by simp
    finally show ?thesis by simp
  qed
qed

lemma dec_val_fmt02d: "dec_val (fmt02d (int n)) = n"
proof -
  have "dec_val (CHR ''0'' # dec_str n) = dec_val (dec_str n)"
    by (simp add: dec_val_def digit_val_def)
  then show ?thesis
    by (simp add: fmt02d_def str_int_def dec_val_dec_str)
qed

lemma fmt02d_inj: "fmt02d (int a) = fmt02d (int b) \<longleftrightarrow> a = b"
proof
  assume "fmt02d (int a) = fmt02d (int b)"
  then have "dec_val (fmt02d (int a)) = dec_val (fmt02d (int b))"
    by (rule arg_cong)
  then show "a = b"
    by (simp only: dec_val_fmt02d)
next
  assume "a = b"
  then show "fmt02d (int a) = fmt02d (int b)"
    by (simp only:)
qed

lemma SEP_STR_inj [simp]: "SEP_STR a = SEP_STR b \<longleftrightarrow> a = b"
  by (simp add: SEP_STR_def fmt02d_inj)

lemma FP_STR_inj [simp]: "FP_STR a = FP_STR b \<longleftrightarrow> a = b"
  by (simp add: FP_STR_def fmt02d_inj)

lemma TDP_STR_inj [simp]: "TDP_STR a = TDP_STR b \<longleftrightarrow> a = b"
  by (simp add: TDP_STR_def fmt02d_inj)

lemma keys_distinct [simp]:
  "SEP_STR a \<noteq> FP_STR b" "SEP_STR a \<noteq> TDP_STR c" "FP_STR b \<noteq> TDP_STR c"
  "FP_STR b \<noteq> SEP_STR a" "TDP_STR c \<noteq> SEP_STR a" "TDP_STR c \<noteq> FP_STR b"
  by (simp_all add: SEP_STR_def FP_STR_def TDP_STR_def)

section \<open>The loops of the parser\<close>

text \<open>
  The three loops are followed from the inside out. Each lemma says that the loop returns,
  what the counters and the file type are afterwards, which identifiers the products have
  and which product each identifier is bound to; every other identifier keeps its product.
\<close>

lemma exposure_step_ok:
  assumes "split_ws (fst e) \<noteq> []"
    and "map_of (obset_products s) (TDP_STR d) = Some pt"
    and "map_of (obset_products s) (FP_STR j) = Some pf"
  shows "exposure_step (TDP_STR d) (FP_STR j) e s =
     Inr ((update_filetype e s)\<lparr>obset_products :=
            AList.update (TDP_STR d) (add_exposures (tdp_info (filetype (update_filetype e s))) [e] pt)
              (AList.update (FP_STR j) (add_exposures (fp_info (filetype (update_filetype e s))) [e] pf)
                (AList.update (SEP_STR (sep_indx s)) (sep_product (filetype (update_filetype e s)) e)
                   (obset_products s))),
          sep_indx := sep_indx s + 1\<rparr>)"
proof -
  have [simp]: "obset_products (update_filetype e s) = obset_products s"
    "sep_indx (update_filetype e s) = sep_indx s"
    by (simp_all add: update_filetype_def)
  show ?thesis
    using assms
    by (cases pt; cases pf)
       (simp add: exposure_step_def Let_def init_fp_info_def append_file_def init_tdp_info_def
          dict_get_def and_then_def update_conv' sep_product_def sep_info_def add_exposures_def
          fp_info_def tdp_info_def)
qed

lemma fp_info_not_Nil [simp]: "fp_info ft e \<noteq> []"
  by (simp add: fp_info_def lower_def)

lemma tdp_info_not_Nil [simp]: "tdp_info ft e \<noteq> []"
  by (simp add: tdp_info_def lower_def Let_def)

lemma add_exposures_Nil [simp]: "add_exposures mk [] p = p"
  by (simp add: add_exposures_def)

lemma add_exposures_Cons:
  "mk e \<noteq> [] \<Longrightarrow> add_exposures mk es (add_exposures mk [e] p) = add_exposures mk (e # es) p"
  by (cases es) (simp_all add: add_exposures_def)

lemma add_exposures_append:
  "(\<And>e. mk e \<noteq> []) \<Longrightarrow> add_exposures mk es' (add_exposures mk es p) = add_exposures mk (es @ es') p"
  by (cases es; cases es') (simp_all add: add_exposures_def)

lemma exposures_loop:
  assumes "list_all (\<lambda>e. split_ws (fst e) \<noteq> []) es"
    and "map_of (obset_products s) (TDP_STR d) = Some pt"
    and "map_of (obset_products s) (FP_STR j) = Some pf"
  shows "\<exists>s'. for_each (exposure_step (TDP_STR d) (FP_STR j)) es s = Inr s' \<and>
      det_indx s' = det_indx s \<and> filt_indx s' = filt_indx s \<and>
      sep_indx s' = sep_indx s + length es \<and>
      (es = [] \<longrightarrow> prev_det_indx s' = prev_det_indx s \<and> filetype s' = filetype s) \<and>
      (es \<noteq> [] \<longrightarrow> prev_det_indx s' = det_indx s \<and>
          filetype s' = (if prev_det_indx s = det_indx s then filetype s
                         else detect_filetype (snd (hd es)))) \<and>
      (distinct (map fst (obset_products s)) \<longrightarrow> distinct (map fst (obset_products s'))) \<and>
      fst ` set (obset_products s') =
        fst ` set (obset_products s) \<union> SEP_STR ` {sep_indx s..<sep_indx s + length es} \<and>
      map_of (obset_products s') (TDP_STR d) = Some (add_exposures (tdp_info (filetype s')) es pt) \<and>
      map_of (obset_products s') (FP_STR j) = Some (add_exposures (fp_info (filetype s')) es pf) \<and>
      (\<forall>i<length es. map_of (obset_products s') (SEP_STR (sep_indx s + i)) =
                        Some (sep_product (filetype s') (es ! i))) \<and>
      (\<forall>k. k \<noteq> TDP_STR d \<longrightarrow> k \<noteq> FP_STR j \<longrightarrow>
           k \<notin> SEP_STR ` {sep_indx s..<sep_indx s + length es} \<longrightarrow>
           map_of (obset_products s') k = map_of (obset_products s) k)"
  using assms
proof (induction es arbitrary: s pt pf)
  case Nil
  then show ?case by simp
next
  case (Cons e es)
  define ft1 where "ft1 = filetype (update_filetype e s)"
  define pt1 where "pt1 = add_exposures (tdp_info ft1) [e] pt"
  define pf1 where "pf1 = add_exposures (fp_info ft1) [e] pf"
  define prods1 where "prods1 = AList.update (TDP_STR d) pt1 (AList.update (FP_STR j) pf1
      (AList.update (SEP_STR (sep_indx s)) (sep_product ft1 e) (obset_products s)))"
  define s1 where "s1 = (update_filetype e s)\<lparr>obset_products := prods1, sep_indx := sep_indx s + 1\<rparr>"
  have wf: "split_ws (fst e) \<noteq> []" and wfs: "list_all (\<lambda>e. split_ws (fst e) \<noteq> []) es"
    using Cons.prems(1) by simp_all
  have step: "exposure_step (TDP_STR d) (FP_STR j) e s = Inr s1"
    unfolding s1_def prods1_def pt1_def pf1_def ft1_def
    by (rule exposure_step_ok [OF wf Cons.prems(2) Cons.prems(3)])
  have s1_det: "det_indx s1 = det_indx s" and s1_filt: "filt_indx s1 = filt_indx s"
    and s1_sep: "sep_indx s1 = sep_indx s + 1" and s1_prev: "prev_det_indx s1 = det_indx s"
    and s1_ft: "filetype s1 = ft1" and s1_prods: "obset_products s1 = prods1"
    by (simp_all add: s1_def update_filetype_def ft1_def)
  have ft1: "ft1 = (if prev_det_indx s = det_indx s then filetype s else detect_filetype (snd e))"
    by (simp add: ft1_def update_filetype_def)
  have m1: "map_of prods1 = (map_of (obset_products s))(SEP_STR (sep_indx s) \<mapsto> sep_product ft1 e,
       FP_STR j \<mapsto> pf1, TDP_STR d \<mapsto> pt1)"
    by (simp add: prods1_def update_conv')
  have k1: "fst ` set prods1 = insert (SEP_STR (sep_indx s)) (fst ` set (obset_products s))"
    using Cons.prems(2) Cons.prems(3)
    by (auto simp: prods1_def dom_update dest: map_of_SomeD intro: rev_image_eqI)
  have d1: "distinct (map fst (obset_products s)) \<Longrightarrow> distinct (map fst prods1)"
    by (simp add: prods1_def distinct_update)
  have t1: "map_of (obset_products s1) (TDP_STR d) = Some pt1"
    and f1: "map_of (obset_products s1) (FP_STR j) = Some pf1"
    by (simp_all add: s1_prods m1)
  from Cons.IH [OF wfs t1 f1] obtain s' where
    run: "for_each (exposure_step (TDP_STR d) (FP_STR j)) es s1 = Inr s'"
    and det: "det_indx s' = det_indx s1" and filt: "filt_indx s' = filt_indx s1"
    and sep: "sep_indx s' = sep_indx s1 + length es"
    and nil: "es = [] \<longrightarrow> prev_det_indx s' = prev_det_indx s1 \<and> filetype s' = filetype s1"
    and cons: "es \<noteq> [] \<longrightarrow> prev_det_indx s' = det_indx s1 \<and>
          filetype s' = (if prev_det_indx s1 = det_indx s1 then filetype s1
                         else detect_filetype (snd (hd es)))"
    and dist: "distinct (map fst (obset_products s1)) \<longrightarrow> distinct (map fst (obset_products s'))"
    and keys: "fst ` set (obset_products s') =
        fst ` set (obset_products s1) \<union> SEP_STR ` {sep_indx s1..<sep_indx s1 + length es}"
    and tdp: "map_of (obset_products s') (TDP_STR d) = Some (add_exposures (tdp_info (filetype s')) es pt1)"
    and fp: "map_of (obset_products s') (FP_STR j) = Some (add_exposures (fp_info (filetype s')) es pf1)"
    and seps: "\<forall>i<length es. map_of (obset_products s') (SEP_STR (sep_indx s1 + i)) =
                        Some (sep_product (filetype s') (es ! i))"
    and others: "\<forall>k. k \<noteq> TDP_STR d \<longrightarrow> k \<noteq> FP_STR j \<longrightarrow>
           k \<notin> SEP_STR ` {sep_indx s1..<sep_indx s1 + length es} \<longrightarrow>
           map_of (obset_products s') k = map_of (obset_products s1) k"
    by blast
  have ft': "filetype s' = ft1" and prev': "prev_det_indx s' = det_indx s"
    using nil cons s1_prev s1_det s1_ft by (cases "es = []"; simp)+
  have c1: "for_each (exposure_step (TDP_STR d) (FP_STR j)) (e # es) s = Inr s'"
    by (simp add: step run and_then_def)
  have c2: "det_indx s' = det_indx s" "filt_indx s' = filt_indx s"
    "sep_indx s' = sep_indx s + length (e # es)"
    using det filt sep s1_det s1_filt s1_sep by simp_all
  have c3: "prev_det_indx s' = det_indx s \<and>
          filetype s' = (if prev_det_indx s = det_indx s then filetype s
                         else detect_filetype (snd (hd (e # es))))"
    using ft' prev' ft1 by simp
  have c4: "distinct (map fst (obset_products s)) \<longrightarrow> distinct (map fst (obset_products s'))"
    using dist d1 s1_prods by simp
  have c5: "fst ` set (obset_products s') =
        fst ` set (obset_products s) \<union> SEP_STR ` {sep_indx s..<sep_indx s + length (e # es)}"
  proof -
    have "{sep_indx s..<sep_indx s + length (e # es)} = insert (sep_indx s) {sep_indx s1..<sep_indx s1 + length es}"
      using s1_sep by auto
    then show ?thesis
      using keys k1 s1_prods by auto
  qed
  have c6: "map_of (obset_products s') (TDP_STR d) = Some (add_exposures (tdp_info (filetype s')) (e # es) pt)"
    using tdp by (simp add: ft' pt1_def add_exposures_Cons)
  have c7: "map_of (obset_products s') (FP_STR j) = Some (add_exposures (fp_info (filetype s')) (e # es) pf)"
    using fp by (simp add: ft' pf1_def add_exposures_Cons)
  have c8: "\<forall>i<length (e # es). map_of (obset_products s') (SEP_STR (sep_indx s + i)) =
                        Some (sep_product (filetype s') ((e # es) ! i))"
  proof (intro allI impI)
    fix i assume i: "i < length (e # es)"
    show "map_of (obset_products s') (SEP_STR (sep_indx s + i)) = Some (sep_product (filetype s') ((e # es) ! i))"
    proof (cases i)
      case 0
      have "SEP_STR (sep_indx s) \<notin> SEP_STR ` {sep_indx s1..<sep_indx s1 + length es}"
        using s1_sep by auto
      then have "map_of (obset_products s') (SEP_STR (sep_indx s)) = map_of (obset_products s1) (SEP_STR (sep_indx s))"
        using others [rule_format, of "SEP_STR (sep_indx s)"] by simp
      then show ?thesis
        using 0 by (simp add: s1_prods m1 ft')
    next
      case (Suc i')
      then have "i' < length es" using i by simp
      then have "map_of (obset_products s') (SEP_STR (sep_indx s1 + i')) = Some (sep_product (filetype s') (es ! i'))"
        using seps by blast
      then show ?thesis
        using Suc s1_sep by simp
    qed
  qed
  have c9: "\<forall>k. k \<noteq> TDP_STR d \<longrightarrow> k \<noteq> FP_STR j \<longrightarrow>
           k \<notin> SEP_STR ` {sep_indx s..<sep_indx s + length (e # es)} \<longrightarrow>
           map_of (obset_products s') k = map_of (obset_products s) k"
  proof (intro allI impI)
    fix k assume k: "k \<noteq> TDP_STR d" "k \<noteq> FP_STR j"
      "k \<notin> SEP_STR ` {sep_indx s..<sep_indx s + length (e # es)}"
    have "k \<noteq> SEP_STR (sep_indx s)" using k(3) by auto
    moreover have "k \<notin> SEP_STR ` {sep_indx s1..<sep_indx s1 + length es}"
      using k(3) s1_sep by auto
    ultimately show "map_of (obset_products s') k = map_of (obset_products s) k"
      using others [rule_format, of k] k(1,2) by (simp add: s1_prods m1)
  qed
  show ?case
    using c1 c2 c3 c4 c5 c6 c7 c8 c9 by (intro exI [of _ s']) simp
qed

lemma filter_step_ok:
  assumes "list_all (\<lambda>e. split_ws (fst e) \<noteq> []) g"
    and "map_of (obset_products s) (TDP_STR d) = Some pt"
  shows "\<exists>s'. filter_step (TDP_STR d) g s = Inr s' \<and>
      det_indx s' = det_indx s \<and> filt_indx s' = filt_indx s + 1 \<and>
      sep_indx s' = sep_indx s + length g \<and>
      (g = [] \<longrightarrow> prev_det_indx s' = prev_det_indx s \<and> filetype s' = filetype s) \<and>
      (g \<noteq> [] \<longrightarrow> prev_det_indx s' = det_indx s \<and>
          filetype s' = (if prev_det_indx s = det_indx s then filetype s
                         else detect_filetype (snd (hd g)))) \<and>
      (distinct (map fst (obset_products s)) \<longrightarrow> distinct (map fst (obset_products s'))) \<and>
      fst ` set (obset_products s') =
        fst ` set (obset_products s) \<union> {FP_STR (filt_indx s)}
          \<union> SEP_STR ` {sep_indx s..<sep_indx s + length g} \<and>
      map_of (obset_products s') (TDP_STR d) = Some (add_exposures (tdp_info (filetype s')) g pt) \<and>
      map_of (obset_products s') (FP_STR (filt_indx s)) =
        Some (add_exposures (fp_info (filetype s')) g empty_product) \<and>
      (\<forall>i<length g. map_of (obset_products s') (SEP_STR (sep_indx s + i)) =
                        Some (sep_product (filetype s') (g ! i))) \<and>
      (\<forall>k. k \<noteq> TDP_STR d \<longrightarrow> k \<noteq> FP_STR (filt_indx s) \<longrightarrow>
           k \<notin> SEP_STR ` {sep_indx s..<sep_indx s + length g} \<longrightarrow>
           map_of (obset_products s') k = map_of (obset_products s) k)"
proof -
  define s0 where "s0 = s\<lparr>obset_products :=
      AList.update (FP_STR (filt_indx s)) empty_product (obset_products s),
      filt_indx := filt_indx s + 1\<rparr>"
  have run0: "filter_step (TDP_STR d) g s = for_each (exposure_step (TDP_STR d) (FP_STR (filt_indx s))) g s0"
    by (simp add: filter_step_def s0_def Let_def empty_product_def)
  have s0: "det_indx s0 = det_indx s" "filt_indx s0 = filt_indx s + 1" "sep_indx s0 = sep_indx s"
    "prev_det_indx s0 = prev_det_indx s" "filetype s0 = filetype s"
    by (simp_all add: s0_def)
  have m0: "map_of (obset_products s0) = (map_of (obset_products s))(FP_STR (filt_indx s) \<mapsto> empty_product)"
    by (simp add: s0_def update_conv')
  have k0: "fst ` set (obset_products s0) = insert (FP_STR (filt_indx s)) (fst ` set (obset_products s))"
    by (simp add: s0_def dom_update)
  have d0: "distinct (map fst (obset_products s)) \<Longrightarrow> distinct (map fst (obset_products s0))"
    by (simp add: s0_def distinct_update)
  have t0: "map_of (obset_products s0) (TDP_STR d) = Some pt"
    using assms(2) by (simp add: m0)
  have f0: "map_of (obset_products s0) (FP_STR (filt_indx s)) = Some empty_product"
    by (simp add: m0)
  from exposures_loop [OF assms(1) t0 f0] obtain s' where
    run: "for_each (exposure_step (TDP_STR d) (FP_STR (filt_indx s))) g s0 = Inr s'"
    and det: "det_indx s' = det_indx s0" and filt: "filt_indx s' = filt_indx s0"
    and sep: "sep_indx s' = sep_indx s0 + length g"
    and nil: "g = [] \<longrightarrow> prev_det_indx s' = prev_det_indx s0 \<and> filetype s' = filetype s0"
    and cons: "g \<noteq> [] \<longrightarrow> prev_det_indx s' = det_indx s0 \<and>
          filetype s' = (if prev_det_indx s0 = det_indx s0 then filetype s0
                         else detect_filetype (snd (hd g)))"
    and dist: "distinct (map fst (obset_products s0)) \<longrightarrow> distinct (map fst (obset_products s'))"
    and keys: "fst ` set (obset_products s') =
        fst ` set (obset_products s0) \<union> SEP_STR ` {sep_indx s0..<sep_indx s0 + length g}"
    and tdp: "map_of (obset_products s') (TDP_STR d) = Some (add_exposures (tdp_info (filetype s')) g pt)"
    and fp: "map_of (obset_products s') (FP_STR (filt_indx s)) =
        Some (add_exposures (fp_info (filetype s')) g empty_product)"
    and seps: "\<forall>i<length g. map_of (obset_products s') (SEP_STR (sep_indx s0 + i)) =
                        Some (sep_product (filetype s') (g ! i))"
    and others: "\<forall>k. k \<noteq> TDP_STR d \<longrightarrow> k \<noteq> FP_STR (filt_indx s) \<longrightarrow>
           k \<notin> SEP_STR ` {sep_indx s0..<sep_indx s0 + length g} \<longrightarrow>
           map_of (obset_products s') k = map_of (obset_products s0) k"
    by blast
  have c9: "\<forall>k. k \<noteq> TDP_STR d \<longrightarrow> k \<noteq> FP_STR (filt_indx s) \<longrightarrow>
           k \<notin> SEP_STR ` {sep_indx s..<sep_indx s + length g} \<longrightarrow>
           map_of (obset_products s') k = map_of (obset_products s) k"
  proof (intro allI impI)
    fix k assume k: "k \<noteq> TDP_STR d" "k \<noteq> FP_STR (filt_indx s)"
      "k \<notin> SEP_STR ` {sep_indx s..<sep_indx s + length g}"
    then show "map_of (obset_products s') k = map_of (obset_products s) k"
      using others [rule_format, of k] by (simp add: s0 m0)
  qed
  have c5: "fst ` set (obset_products s') =
        fst ` set (obset_products s) \<union> {FP_STR (filt_indx s)}
          \<union> SEP_STR ` {sep_indx s..<sep_indx s + length g}"
    using keys k0 by (simp add: s0)
  have c4: "distinct (map fst (obset_products s)) \<longrightarrow> distinct (map fst (obset_products s'))"
    using dist d0 by simp
  show ?thesis
    using run det filt sep nil cons c4 c5 tdp fp seps c9
    by (intro exI [of _ s']) (simp add: run0 s0)
qed

lemma filters_loop:
  assumes "list_all (\<lambda>e. split_ws (fst e) \<noteq> []) (concat gs)"
    and "map_of (obset_products s) (TDP_STR d) = Some pt"
  shows "\<exists>s'. for_each (filter_step (TDP_STR d)) gs s = Inr s' \<and>
      det_indx s' = det_indx s \<and> filt_indx s' = filt_indx s + length gs \<and>
      sep_indx s' = sep_indx s + length (concat gs) \<and>
      (concat gs = [] \<longrightarrow> prev_det_indx s' = prev_det_indx s \<and> filetype s' = filetype s) \<and>
      (concat gs \<noteq> [] \<longrightarrow> prev_det_indx s' = det_indx s \<and>
          filetype s' = (if prev_det_indx s = det_indx s then filetype s
                         else detect_filetype (snd (hd (concat gs))))) \<and>
      (distinct (map fst (obset_products s)) \<longrightarrow> distinct (map fst (obset_products s'))) \<and>
      fst ` set (obset_products s') =
        fst ` set (obset_products s) \<union> FP_STR ` {filt_indx s..<filt_indx s + length gs}
          \<union> SEP_STR ` {sep_indx s..<sep_indx s + length (concat gs)} \<and>
      map_of (obset_products s') (TDP_STR d) =
        Some (add_exposures (tdp_info (filetype s')) (concat gs) pt) \<and>
      (\<forall>j<length gs. map_of (obset_products s') (FP_STR (filt_indx s + j)) =
                        Some (add_exposures (fp_info (filetype s')) (gs ! j) empty_product)) \<and>
      (\<forall>i<length (concat gs). map_of (obset_products s') (SEP_STR (sep_indx s + i)) =
                        Some (sep_product (filetype s') (concat gs ! i))) \<and>
      (\<forall>k. k \<noteq> TDP_STR d \<longrightarrow> k \<notin> FP_STR ` {filt_indx s..<filt_indx s + length gs} \<longrightarrow>
           k \<notin> SEP_STR ` {sep_indx s..<sep_indx s + length (concat gs)} \<longrightarrow>
           map_of (obset_products s') k = map_of (obset_products s) k)"
  using assms
proof (induction gs arbitrary: s pt)
  case Nil
  then show ?case by simp
next
  case (Cons g gs)
  have wfg: "list_all (\<lambda>e. split_ws (fst e) \<noteq> []) g"
    and wfs: "list_all (\<lambda>e. split_ws (fst e) \<noteq> []) (concat gs)"
    using Cons.prems(1) by simp_all
  from filter_step_ok [OF wfg Cons.prems(2)] obtain s1 where
    step: "filter_step (TDP_STR d) g s = Inr s1"
    and det1: "det_indx s1 = det_indx s" and filt1: "filt_indx s1 = filt_indx s + 1"
    and sep1: "sep_indx s1 = sep_indx s + length g"
    and nil1: "g = [] \<longrightarrow> prev_det_indx s1 = prev_det_indx s \<and> filetype s1 = filetype s"
    and cons1: "g \<noteq> [] \<longrightarrow> prev_det_indx s1 = det_indx s \<and>
          filetype s1 = (if prev_det_indx s = det_indx s then filetype s
                         else detect_filetype (snd (hd g)))"
    and dist1: "distinct (map fst (obset_products s)) \<longrightarrow> distinct (map fst (obset_products s1))"
    and keys1: "fst ` set (obset_products s1) =
        fst ` set (obset_products s) \<union> {FP_STR (filt_indx s)}
          \<union> SEP_STR ` {sep_indx s..<sep_indx s + length g}"
    and tdp1: "map_of (obset_products s1) (TDP_STR d) = Some (add_exposures (tdp_info (filetype s1)) g pt)"
    and fp1: "map_of (obset_products s1) (FP_STR (filt_indx s)) =
        Some (add_exposures (fp_info (filetype s1)) g empty_product)"
    and seps1: "\<forall>i<length g. map_of (obset_products s1) (SEP_STR (sep_indx s + i)) =
                        Some (sep_product (filetype s1) (g ! i))"
    and others1: "\<forall>k. k \<noteq> TDP_STR d \<longrightarrow> k \<noteq> FP_STR (filt_indx s) \<longrightarrow>
           k \<notin> SEP_STR ` {sep_indx s..<sep_indx s + length g} \<longrightarrow>
           map_of (obset_products s1) k = map_of (obset_products s) k"
    by (elim exE conjE) (rule that)
  from Cons.IH [OF wfs tdp1] obtain s' where
    run: "for_each (filter_step (TDP_STR d)) gs s1 = Inr s'"
    and det: "det_indx s' = det_indx s1" and filt: "filt_indx s' = filt_indx s1 + length gs"
    and sep: "sep_indx s' = sep_indx s1 + length (concat gs)"
    and nil: "concat gs = [] \<longrightarrow> prev_det_indx s' = prev_det_indx s1 \<and> filetype s' = filetype s1"
    and cons: "concat gs \<noteq> [] \<longrightarrow> prev_det_indx s' = det_indx s1 \<and>
          filetype s' = (if prev_det_indx s1 = det_indx s1 then filetype s1
                         else detect_filetype (snd (hd (concat gs))))"
    and dist: "distinct (map fst (obset_products s1)) \<longrightarrow> distinct (map fst (obset_products s'))"
    and keys: "fst ` set (obset_products s') =
        fst ` set (obset_products s1) \<union> FP_STR ` {filt_indx s1..<filt_indx s1 + length gs}
          \<union> SEP_STR ` {sep_indx s1..<sep_indx s1 + length (concat gs)}"
    and tdp: "map_of (obset_products s') (TDP_STR d) =
        Some (add_exposures (tdp_info (filetype s')) (concat gs) (add_exposures (tdp_info (filetype s1)) g pt))"
    and fps: "\<forall>j<length gs. map_of (obset_products s') (FP_STR (filt_indx s1 + j)) =
                        Some (add_exposures (fp_info (filetype s')) (gs ! j) empty_product)"
    and seps: "\<forall>i<length (concat gs). map_of (obset_products s') (SEP_STR (sep_indx s1 + i)) =
                        Some (sep_product (filetype s') (concat gs ! i))"
    and others: "\<forall>k. k \<noteq> TDP_STR d \<longrightarrow> k \<notin> FP_STR ` {filt_indx s1..<filt_indx s1 + length gs} \<longrightarrow>
           k \<notin> SEP_STR ` {sep_indx s1..<sep_indx s1 + length (concat gs)} \<longrightarrow>
           map_of (obset_products s') k = map_of (obset_products s1) k"
    by (elim exE conjE) (rule that)
  have ft: "g \<noteq> [] \<Longrightarrow> filetype s' = filetype s1"
    using nil cons cons1 det1 by (cases "concat gs = []") simp_all
  have c1: "for_each (filter_step (TDP_STR d)) (g # gs) s = Inr s'"
    by (simp add: step run and_then_def)
  have c2: "det_indx s' = det_indx s" "filt_indx s' = filt_indx s + length (g # gs)"
    "sep_indx s' = sep_indx s + length (concat (g # gs))"
    using det filt sep det1 filt1 sep1 by simp_all
  have c3a: "concat (g # gs) = [] \<longrightarrow> prev_det_indx s' = prev_det_indx s \<and> filetype s' = filetype s"
    using nil nil1 by simp
  have c3b: "concat (g # gs) \<noteq> [] \<longrightarrow> prev_det_indx s' = det_indx s \<and>
          filetype s' = (if prev_det_indx s = det_indx s then filetype s
                         else detect_filetype (snd (hd (concat (g # gs)))))"
  proof (cases "g = []")
    case True
    then show ?thesis using nil1 cons det1 by simp
  next
    case False
    then show ?thesis
      using ft cons1 nil cons det1 by (cases "concat gs = []") simp_all
  qed
  have c4: "distinct (map fst (obset_products s)) \<longrightarrow> distinct (map fst (obset_products s'))"
    using dist dist1 by simp
  have c5: "fst ` set (obset_products s') =
        fst ` set (obset_products s) \<union> FP_STR ` {filt_indx s..<filt_indx s + length (g # gs)}
          \<union> SEP_STR ` {sep_indx s..<sep_indx s + length (concat (g # gs))}"
  proof -
    have "{filt_indx s..<filt_indx s + length (g # gs)} =
        insert (filt_indx s) {filt_indx s1..<filt_indx s1 + length gs}"
      using filt1 by auto
    moreover have "{sep_indx s..<sep_indx s + length (concat (g # gs))} =
        {sep_indx s..<sep_indx s + length g} \<union> {sep_indx s1..<sep_indx s1 + length (concat gs)}"
      using sep1 by auto
    ultimately show ?thesis
      using keys keys1 by (simp only: image_insert image_Un) blast
  qed
  have c6: "map_of (obset_products s') (TDP_STR d) =
        Some (add_exposures (tdp_info (filetype s')) (concat (g # gs)) pt)"
  proof (cases "g = []")
    case True
    then show ?thesis using tdp by simp
  next
    case False
    then show ?thesis
      using tdp ft by (simp add: add_exposures_append)
  qed
  have c7: "\<forall>j<length (g # gs). map_of (obset_products s') (FP_STR (filt_indx s + j)) =
                        Some (add_exposures (fp_info (filetype s')) ((g # gs) ! j) empty_product)"
  proof (intro allI impI)
    fix j assume j: "j < length (g # gs)"
    show "map_of (obset_products s') (FP_STR (filt_indx s + j)) =
            Some (add_exposures (fp_info (filetype s')) ((g # gs) ! j) empty_product)"
    proof (cases j)
      case 0
      have "FP_STR (filt_indx s) \<notin> FP_STR ` {filt_indx s1..<filt_indx s1 + length gs}"
        using filt1 by auto
      moreover have "FP_STR (filt_indx s) \<notin> SEP_STR ` {sep_indx s1..<sep_indx s1 + length (concat gs)}"
        by auto
      ultimately have "map_of (obset_products s') (FP_STR (filt_indx s)) =
          map_of (obset_products s1) (FP_STR (filt_indx s))"
        using others [rule_format, of "FP_STR (filt_indx s)"] by simp
      then show ?thesis
        using 0 fp1 ft by (cases "g = []") simp_all
    next
      case (Suc j')
      then have "j' < length gs" using j by simp
      then have "map_of (obset_products s') (FP_STR (filt_indx s1 + j')) =
           Some (add_exposures (fp_info (filetype s')) (gs ! j') empty_product)"
        using fps by blast
      then show ?thesis
        using Suc filt1 by simp
    qed
  qed
  have c8: "\<forall>i<length (concat (g # gs)). map_of (obset_products s') (SEP_STR (sep_indx s + i)) =
                        Some (sep_product (filetype s') (concat (g # gs) ! i))"
  proof (intro allI impI)
    fix i assume i: "i < length (concat (g # gs))"
    show "map_of (obset_products s') (SEP_STR (sep_indx s + i)) =
            Some (sep_product (filetype s') (concat (g # gs) ! i))"
    proof (cases "i < length g")
      case True
      then have g: "g \<noteq> []" by auto
      have "SEP_STR (sep_indx s + i) \<notin> FP_STR ` {filt_indx s1..<filt_indx s1 + length gs}"
        by auto
      moreover have "SEP_STR (sep_indx s + i) \<notin> SEP_STR ` {sep_indx s1..<sep_indx s1 + length (concat gs)}"
        using sep1 True by auto
      ultimately have "map_of (obset_products s') (SEP_STR (sep_indx s + i)) =
          map_of (obset_products s1) (SEP_STR (sep_indx s + i))"
        using others [rule_format, of "SEP_STR (sep_indx s + i)"] by simp
      then show ?thesis
        using True seps1 ft [OF g] by (simp add: nth_append)
    next
      case False
      define i' where "i' = i - length g"
      have i': "i' < length (concat gs)" "i = length g + i'"
        using False i by (simp_all add: i'_def)
      have "map_of (obset_products s') (SEP_STR (sep_indx s1 + i')) =
           Some (sep_product (filetype s') (concat gs ! i'))"
        using seps i'(1) by blast
      then show ?thesis
        using i'(2) sep1 by (simp add: nth_append add.assoc)
    qed
  qed
  have c9: "\<forall>k. k \<noteq> TDP_STR d \<longrightarrow> k \<notin> FP_STR ` {filt_indx s..<filt_indx s + length (g # gs)} \<longrightarrow>
           k \<notin> SEP_STR ` {sep_indx s..<sep_indx s + length (concat (g # gs))} \<longrightarrow>
           map_of (obset_products s') k = map_of (obset_products s) k"
  proof (intro allI impI)
    fix k assume k: "k \<noteq> TDP_STR d" "k \<notin> FP_STR ` {filt_indx s..<filt_indx s + length (g # gs)}"
      "k \<notin> SEP_STR ` {sep_indx s..<sep_indx s + length (concat (g # gs))}"
    have a: "k \<noteq> FP_STR (filt_indx s)" using k(2) by auto
    have b: "k \<notin> FP_STR ` {filt_indx s1..<filt_indx s1 + length gs}"
      using k(2) filt1 by auto
    have c: "k \<notin> SEP_STR ` {sep_indx s..<sep_indx s + length g}"
      using k(3) by auto
    have e: "k \<notin> SEP_STR ` {sep_indx s1..<sep_indx s1 + length (concat gs)}"
      using k(3) sep1 by auto
    show "map_of (obset_products s') k = map_of (obset_products s) k"
      using others [rule_format, OF k(1) b e] others1 [rule_format, OF k(1) a c] by simp
  qed
  show ?case
    using c1 c2 c3a c3b c4 c5 c6 c7 c8 c9 by (intro exI [of _ s']) simp
qed

lemma detector_filetype_hd: "es \<noteq> [] \<Longrightarrow> detector_filetype es = detect_filetype (snd (hd es))"
  by (cases es) (simp_all add: detector_filetype_def)

lemma concat_Nil_nth: "concat gs = [] \<Longrightarrow> j < length gs \<Longrightarrow> gs ! j = []"
  by (simp add: concat_eq_Nil_conv)

lemma detector_step_ok:
  assumes "list_all (\<lambda>e. split_ws (fst e) \<noteq> []) (detector_exposures ftree)"
    and "prev_det_indx s \<le> det_indx s"
  shows "\<exists>s'. detector_step ftree s = Inr s' \<and>
      det_indx s' = det_indx s + 1 \<and> filt_indx s' = filt_indx s + length ftree \<and>
      sep_indx s' = sep_indx s + length (detector_exposures ftree) \<and>
      prev_det_indx s' \<le> det_indx s' \<and>
      (distinct (map fst (obset_products s)) \<longrightarrow> distinct (map fst (obset_products s'))) \<and>
      fst ` set (obset_products s') =
        fst ` set (obset_products s) \<union> {TDP_STR (det_indx s)}
          \<union> FP_STR ` {filt_indx s..<filt_indx s + length ftree}
          \<union> SEP_STR ` {sep_indx s..<sep_indx s + length (detector_exposures ftree)} \<and>
      map_of (obset_products s') (TDP_STR (det_indx s)) =
        Some (add_exposures (tdp_info (detector_filetype (detector_exposures ftree)))
                (detector_exposures ftree) empty_product) \<and>
      (\<forall>j<length ftree. map_of (obset_products s') (FP_STR (filt_indx s + j)) =
          Some (add_exposures (fp_info (detector_filetype (detector_exposures ftree)))
                  (snd (ftree ! j)) empty_product)) \<and>
      (\<forall>i<length (detector_exposures ftree). map_of (obset_products s') (SEP_STR (sep_indx s + i)) =
          Some (sep_product (detector_filetype (detector_exposures ftree))
                  (detector_exposures ftree ! i))) \<and>
      (\<forall>k. k \<noteq> TDP_STR (det_indx s) \<longrightarrow>
           k \<notin> FP_STR ` {filt_indx s..<filt_indx s + length ftree} \<longrightarrow>
           k \<notin> SEP_STR ` {sep_indx s..<sep_indx s + length (detector_exposures ftree)} \<longrightarrow>
           map_of (obset_products s') k = map_of (obset_products s) k)"
proof -
  define gs where "gs = map snd ftree"
  define es where "es = detector_exposures ftree"
  define d where "d = det_indx s"
  define s0 where "s0 = s\<lparr>obset_products :=
      AList.update (TDP_STR d) empty_product (obset_products s),
      det_indx := det_indx s + 1\<rparr>"
  have es: "es = concat gs"
    by (simp add: es_def gs_def detector_exposures_def)
  have len: "length gs = length ftree"
    by (simp add: gs_def)
  have run0: "detector_step ftree s = for_each (filter_step (TDP_STR d)) gs s0"
    by (simp add: detector_step_def s0_def Let_def empty_product_def gs_def d_def)
  have s0: "det_indx s0 = det_indx s + 1" "filt_indx s0 = filt_indx s" "sep_indx s0 = sep_indx s"
    "prev_det_indx s0 = prev_det_indx s" "filetype s0 = filetype s"
    by (simp_all add: s0_def)
  have neq: "prev_det_indx s0 \<noteq> det_indx s0"
    using assms(2) by (simp add: s0)
  have m0: "map_of (obset_products s0) = (map_of (obset_products s))(TDP_STR d \<mapsto> empty_product)"
    by (simp add: s0_def update_conv')
  have k0: "fst ` set (obset_products s0) = insert (TDP_STR d) (fst ` set (obset_products s))"
    by (simp add: s0_def dom_update)
  have d0: "distinct (map fst (obset_products s)) \<Longrightarrow> distinct (map fst (obset_products s0))"
    by (simp add: s0_def distinct_update)
  have t0: "map_of (obset_products s0) (TDP_STR d) = Some empty_product"
    by (simp add: m0)
  have wf: "list_all (\<lambda>e. split_ws (fst e) \<noteq> []) (concat gs)"
    using assms(1) by (simp add: es [symmetric] es_def)
  from filters_loop [OF wf t0] obtain s' where
    run: "for_each (filter_step (TDP_STR d)) gs s0 = Inr s'"
    and det: "det_indx s' = det_indx s0" and filt: "filt_indx s' = filt_indx s0 + length gs"
    and sep: "sep_indx s' = sep_indx s0 + length (concat gs)"
    and nil: "concat gs = [] \<longrightarrow> prev_det_indx s' = prev_det_indx s0 \<and> filetype s' = filetype s0"
    and cons: "concat gs \<noteq> [] \<longrightarrow> prev_det_indx s' = det_indx s0 \<and>
          filetype s' = (if prev_det_indx s0 = det_indx s0 then filetype s0
                         else detect_filetype (snd (hd (concat gs))))"
    and dist: "distinct (map fst (obset_products s0)) \<longrightarrow> distinct (map fst (obset_products s'))"
    and keys: "fst ` set (obset_products s') =
        fst ` set (obset_products s0) \<union> FP_STR ` {filt_indx s0..<filt_indx s0 + length gs}
          \<union> SEP_STR ` {sep_indx s0..<sep_indx s0 + length (concat gs)}"
    and tdp: "map_of (obset_products s') (TDP_STR d) =
        Some (add_exposures (tdp_info (filetype s')) (concat gs) empty_product)"
    and fps: "\<forall>j<length gs. map_of (obset_products s') (FP_STR (filt_indx s0 + j)) =
                        Some (add_exposures (fp_info (filetype s')) (gs ! j) empty_product)"
    and seps: "\<forall>i<length (concat gs). map_of (obset_products s') (SEP_STR (sep_indx s0 + i)) =
                        Some (sep_product (filetype s') (concat gs ! i))"
    and others: "\<forall>k. k \<noteq> TDP_STR d \<longrightarrow> k \<notin> FP_STR ` {filt_indx s0..<filt_indx s0 + length gs} \<longrightarrow>
           k \<notin> SEP_STR ` {sep_indx s0..<sep_indx s0 + length (concat gs)} \<longrightarrow>
           map_of (obset_products s') k = map_of (obset_products s0) k"
    by (elim exE conjE) (rule that)
  note nil' = nil [folded es] and cons' = cons [folded es] and tdp' = tdp [folded es]
    and seps' = seps [folded es] and sep' = sep [folded es]
  have ft: "es \<noteq> [] \<Longrightarrow> filetype s' = detector_filetype es"
    using cons' neq by (simp add: detector_filetype_hd)
  have c1: "detector_step ftree s = Inr s'"
    by (simp add: run0 run)
  have c2: "det_indx s' = det_indx s + 1" "filt_indx s' = filt_indx s + length ftree"
    "sep_indx s' = sep_indx s + length es"
    using det filt sep' by (simp_all add: s0 len)
  have c3: "prev_det_indx s' \<le> det_indx s'"
    using nil' cons' det assms(2) by (cases "es = []") (simp_all add: s0)
  have c4: "distinct (map fst (obset_products s)) \<longrightarrow> distinct (map fst (obset_products s'))"
    using dist d0 by simp
  have c5: "fst ` set (obset_products s') =
        fst ` set (obset_products s) \<union> {TDP_STR d}
          \<union> FP_STR ` {filt_indx s..<filt_indx s + length ftree}
          \<union> SEP_STR ` {sep_indx s..<sep_indx s + length es}"
    using keys [folded es] k0 by (simp add: s0 len)
  have c6: "map_of (obset_products s') (TDP_STR d) =
        Some (add_exposures (tdp_info (detector_filetype es)) es empty_product)"
    using tdp' ft by (cases "es = []") simp_all
  have c7: "\<forall>j<length ftree. map_of (obset_products s') (FP_STR (filt_indx s + j)) =
          Some (add_exposures (fp_info (detector_filetype es)) (snd (ftree ! j)) empty_product)"
  proof (intro allI impI)
    fix j assume j: "j < length ftree"
    then have g: "gs ! j = snd (ftree ! j)"
      by (simp add: gs_def)
    have "map_of (obset_products s') (FP_STR (filt_indx s0 + j)) =
                        Some (add_exposures (fp_info (filetype s')) (gs ! j) empty_product)"
      using fps j len by simp
    then show "map_of (obset_products s') (FP_STR (filt_indx s + j)) =
          Some (add_exposures (fp_info (detector_filetype es)) (snd (ftree ! j)) empty_product)"
    proof (cases "es = []")
      case True
      then have "gs ! j = []"
        using j len concat_Nil_nth [of gs j] by (simp add: es)
      then show ?thesis
        using \<open>map_of (obset_products s') (FP_STR (filt_indx s0 + j)) =
                        Some (add_exposures (fp_info (filetype s')) (gs ! j) empty_product)\<close> g
        by (simp add: s0)
    next
      case False
      then show ?thesis
        using \<open>map_of (obset_products s') (FP_STR (filt_indx s0 + j)) =
                        Some (add_exposures (fp_info (filetype s')) (gs ! j) empty_product)\<close> g ft
        by (simp add: s0)
    qed
  qed
  have c8: "\<forall>i<length es. map_of (obset_products s') (SEP_STR (sep_indx s + i)) =
          Some (sep_product (detector_filetype es) (es ! i))"
  proof (intro allI impI)
    fix i assume i: "i < length es"
    then have "es \<noteq> []" by auto
    then show "map_of (obset_products s') (SEP_STR (sep_indx s + i)) =
          Some (sep_product (detector_filetype es) (es ! i))"
      using seps' [rule_format, of i] i ft by (simp add: s0)
  qed
  have c9: "\<forall>k. k \<noteq> TDP_STR d \<longrightarrow>
           k \<notin> FP_STR ` {filt_indx s..<filt_indx s + length ftree} \<longrightarrow>
           k \<notin> SEP_STR ` {sep_indx s..<sep_indx s + length es} \<longrightarrow>
           map_of (obset_products s') k = map_of (obset_products s) k"
  proof (intro allI impI)
    fix k assume k: "k \<noteq> TDP_STR d" "k \<notin> FP_STR ` {filt_indx s..<filt_indx s + length ftree}"
      "k \<notin> SEP_STR ` {sep_indx s..<sep_indx s + length es}"
    then show "map_of (obset_products s') k = map_of (obset_products s) k"
      using others [folded es, rule_format, of k] by (simp add: s0 len m0)
  qed
  show ?thesis
    using c1 c2 c3 c4 c5 c6 c7 c8 c9 by (intro exI [of _ s']) (simp add: es_def d_def)
qed

lemma tree_exposures_Nil [simp]: "tree_exposures [] = []"
  by (simp add: tree_exposures_def)

lemma tree_exposures_Cons:
  "tree_exposures (x # xs) = detector_exposures (snd x) @ tree_exposures xs"
  by (simp add: tree_exposures_def)

lemma tree_groups_Nil [simp]: "tree_groups [] = []"
  by (simp add: tree_groups_def)

lemma tree_groups_Cons: "tree_groups (x # xs) = map snd (snd x) @ tree_groups xs"
  by (simp add: tree_groups_def)

lemma expected_tdp_Cons:
  "expected_tdp (x # xs) =
     add_exposures (tdp_info (detector_filetype (detector_exposures (snd x))))
       (detector_exposures (snd x)) empty_product # expected_tdp xs"
  by (simp add: expected_tdp_def)

lemma expected_fp_Cons:
  "expected_fp (x # xs) =
     map (\<lambda>g. add_exposures (fp_info (detector_filetype (detector_exposures (snd x))))
                 (snd g) empty_product) (snd x) @ expected_fp xs"
  by (simp add: expected_fp_def)

lemma expected_sep_Cons:
  "expected_sep (x # xs) =
     map (sep_product (detector_filetype (detector_exposures (snd x))))
       (detector_exposures (snd x)) @ expected_sep xs"
  by (simp add: expected_sep_def)

lemma well_formed_Cons:
  "well_formed (x # xs) \<longleftrightarrow>
     list_all (\<lambda>e. split_ws (fst e) \<noteq> []) (detector_exposures (snd x)) \<and> well_formed xs"
  by (simp add: well_formed_def tree_exposures_Cons)

lemma detectors_loop:
  assumes "well_formed dtree" and "prev_det_indx s \<le> det_indx s"
  shows "\<exists>s'. for_each detector_step (map snd dtree) s = Inr s' \<and>
      det_indx s' = det_indx s + length dtree \<and>
      filt_indx s' = filt_indx s + length (tree_groups dtree) \<and>
      sep_indx s' = sep_indx s + length (tree_exposures dtree) \<and>
      (distinct (map fst (obset_products s)) \<longrightarrow> distinct (map fst (obset_products s'))) \<and>
      fst ` set (obset_products s') =
        fst ` set (obset_products s) \<union> TDP_STR ` {det_indx s..<det_indx s + length dtree}
          \<union> FP_STR ` {filt_indx s..<filt_indx s + length (tree_groups dtree)}
          \<union> SEP_STR ` {sep_indx s..<sep_indx s + length (tree_exposures dtree)} \<and>
      (\<forall>n<length dtree. map_of (obset_products s') (TDP_STR (det_indx s + n)) =
          Some (expected_tdp dtree ! n)) \<and>
      (\<forall>j<length (tree_groups dtree). map_of (obset_products s') (FP_STR (filt_indx s + j)) =
          Some (expected_fp dtree ! j)) \<and>
      (\<forall>i<length (tree_exposures dtree). map_of (obset_products s') (SEP_STR (sep_indx s + i)) =
          Some (expected_sep dtree ! i)) \<and>
      (\<forall>k. k \<notin> TDP_STR ` {det_indx s..<det_indx s + length dtree} \<longrightarrow>
           k \<notin> FP_STR ` {filt_indx s..<filt_indx s + length (tree_groups dtree)} \<longrightarrow>
           k \<notin> SEP_STR ` {sep_indx s..<sep_indx s + length (tree_exposures dtree)} \<longrightarrow>
           map_of (obset_products s') k = map_of (obset_products s) k)"
  using assms
proof (induction dtree arbitrary: s)
  case Nil
  then show ?case by simp
next
  case (Cons x xs)
  define ftree where "ftree = snd x"
  define es where "es = detector_exposures ftree"
  define ftd where "ftd = detector_filetype es"
  have wfx: "list_all (\<lambda>e. split_ws (fst e) \<noteq> []) (detector_exposures ftree)"
    and wfs: "well_formed xs"
    using Cons.prems(1) by (simp_all add: well_formed_Cons ftree_def)
  from detector_step_ok [OF wfx Cons.prems(2)] obtain s1 where
    step: "detector_step ftree s = Inr s1"
    and det1: "det_indx s1 = det_indx s + 1" and filt1: "filt_indx s1 = filt_indx s + length ftree"
    and sep1: "sep_indx s1 = sep_indx s + length (detector_exposures ftree)"
    and prev1: "prev_det_indx s1 \<le> det_indx s1"
    and dist1: "distinct (map fst (obset_products s)) \<longrightarrow> distinct (map fst (obset_products s1))"
    and keys1: "fst ` set (obset_products s1) =
        fst ` set (obset_products s) \<union> {TDP_STR (det_indx s)}
          \<union> FP_STR ` {filt_indx s..<filt_indx s + length ftree}
          \<union> SEP_STR ` {sep_indx s..<sep_indx s + length (detector_exposures ftree)}"
    and tdp1: "map_of (obset_products s1) (TDP_STR (det_indx s)) =
        Some (add_exposures (tdp_info (detector_filetype (detector_exposures ftree)))
                (detector_exposures ftree) empty_product)"
    and fps1: "\<forall>j<length ftree. map_of (obset_products s1) (FP_STR (filt_indx s + j)) =
          Some (add_exposures (fp_info (detector_filetype (detector_exposures ftree)))
                  (snd (ftree ! j)) empty_product)"
    and seps1: "\<forall>i<length (detector_exposures ftree). map_of (obset_products s1) (SEP_STR (sep_indx s + i)) =
          Some (sep_product (detector_filetype (detector_exposures ftree))
                  (detector_exposures ftree ! i))"
    and others1: "\<forall>k. k \<noteq> TDP_STR (det_indx s) \<longrightarrow>
           k \<notin> FP_STR ` {filt_indx s..<filt_indx s + length ftree} \<longrightarrow>
           k \<notin> SEP_STR ` {sep_indx s..<sep_indx s + length (detector_exposures ftree)} \<longrightarrow>
           map_of (obset_products s1) k = map_of (obset_products s) k"
    by (elim exE conjE) (rule that)
  from Cons.IH [OF wfs prev1] obtain s' where
    run: "for_each detector_step (map snd xs) s1 = Inr s'"
    and det: "det_indx s' = det_indx s1 + length xs"
    and filt: "filt_indx s' = filt_indx s1 + length (tree_groups xs)"
    and sep: "sep_indx s' = sep_indx s1 + length (tree_exposures xs)"
    and dist: "distinct (map fst (obset_products s1)) \<longrightarrow> distinct (map fst (obset_products s'))"
    and keys: "fst ` set (obset_products s') =
        fst ` set (obset_products s1) \<union> TDP_STR ` {det_indx s1..<det_indx s1 + length xs}
          \<union> FP_STR ` {filt_indx s1..<filt_indx s1 + length (tree_groups xs)}
          \<union> SEP_STR ` {sep_indx s1..<sep_indx s1 + length (tree_exposures xs)}"
    and tdps: "\<forall>n<length xs. map_of (obset_products s') (TDP_STR (det_indx s1 + n)) =
          Some (expected_tdp xs ! n)"
    and fps: "\<forall>j<length (tree_groups xs). map_of (obset_products s') (FP_STR (filt_indx s1 + j)) =
          Some (expected_fp xs ! j)"
    and seps: "\<forall>i<length (tree_exposures xs). map_of (obset_products s') (SEP_STR (sep_indx s1 + i)) =
          Some (expected_sep xs ! i)"
    and others: "\<forall>k. k \<notin> TDP_STR ` {det_indx s1..<det_indx s1 + length xs} \<longrightarrow>
           k \<notin> FP_STR ` {filt_indx s1..<filt_indx s1 + length (tree_groups xs)} \<longrightarrow>
           k \<notin> SEP_STR ` {sep_indx s1..<sep_indx s1 + length (tree_exposures xs)} \<longrightarrow>
           map_of (obset_products s') k = map_of (obset_products s1) k"
    by (elim exE conjE) (rule that)
  note sep1' = sep1 [folded es_def] and keys1' = keys1 [folded es_def]
    and tdp1' = tdp1 [folded es_def, folded ftd_def] and fps1' = fps1 [folded es_def, folded ftd_def]
    and seps1' = seps1 [folded es_def, folded ftd_def] and others1' = others1 [folded es_def]
  have te: "tree_exposures (x # xs) = es @ tree_exposures xs"
    and tg: "tree_groups (x # xs) = map snd ftree @ tree_groups xs"
    and et: "expected_tdp (x # xs) = add_exposures (tdp_info ftd) es empty_product # expected_tdp xs"
    and ef: "expected_fp (x # xs) =
        map (\<lambda>g. add_exposures (fp_info ftd) (snd g) empty_product) ftree @ expected_fp xs"
    and ee: "expected_sep (x # xs) = map (sep_product ftd) es @ expected_sep xs"
    by (simp_all add: es_def ftd_def ftree_def expected_tdp_Cons expected_fp_Cons expected_sep_Cons
        tree_exposures_Cons tree_groups_Cons)
  have c1: "for_each detector_step (map snd (x # xs)) s = Inr s'"
    using step run by (simp add: and_then_def ftree_def)
  have c2: "det_indx s' = det_indx s + length (x # xs)"
    "filt_indx s' = filt_indx s + length (tree_groups (x # xs))"
    "sep_indx s' = sep_indx s + length (tree_exposures (x # xs))"
    using det filt sep det1 filt1 sep1' by (simp_all add: te tg)
  have c4: "distinct (map fst (obset_products s)) \<longrightarrow> distinct (map fst (obset_products s'))"
    using dist dist1 by simp
  have c5: "fst ` set (obset_products s') =
        fst ` set (obset_products s) \<union> TDP_STR ` {det_indx s..<det_indx s + length (x # xs)}
          \<union> FP_STR ` {filt_indx s..<filt_indx s + length (tree_groups (x # xs))}
          \<union> SEP_STR ` {sep_indx s..<sep_indx s + length (tree_exposures (x # xs))}"
  proof -
    have "{det_indx s..<det_indx s + length (x # xs)} =
        insert (det_indx s) {det_indx s1..<det_indx s1 + length xs}"
      using det1 by auto
    moreover have "{filt_indx s..<filt_indx s + length (tree_groups (x # xs))} =
        {filt_indx s..<filt_indx s + length ftree}
          \<union> {filt_indx s1..<filt_indx s1 + length (tree_groups xs)}"
      using filt1 by (auto simp: tg)
    moreover have "{sep_indx s..<sep_indx s + length (tree_exposures (x # xs))} =
        {sep_indx s..<sep_indx s + length es} \<union> {sep_indx s1..<sep_indx s1 + length (tree_exposures xs)}"
      using sep1' by (auto simp: te)
    ultimately show ?thesis
      using keys keys1' by (simp only: image_insert image_Un) blast
  qed
  have keep: "map_of (obset_products s') k = map_of (obset_products s1) k"
    if "k \<notin> TDP_STR ` {det_indx s1..<det_indx s1 + length xs}"
      "k \<notin> FP_STR ` {filt_indx s1..<filt_indx s1 + length (tree_groups xs)}"
      "k \<notin> SEP_STR ` {sep_indx s1..<sep_indx s1 + length (tree_exposures xs)}" for k
    using others [rule_format, OF that] .
  have c6: "\<forall>n<length (x # xs). map_of (obset_products s') (TDP_STR (det_indx s + n)) =
          Some (expected_tdp (x # xs) ! n)"
  proof (intro allI impI)
    fix n assume n: "n < length (x # xs)"
    show "map_of (obset_products s') (TDP_STR (det_indx s + n)) = Some (expected_tdp (x # xs) ! n)"
    proof (cases n)
      case 0
      have "map_of (obset_products s') (TDP_STR (det_indx s)) = map_of (obset_products s1) (TDP_STR (det_indx s))"
        using det1 by (intro keep) auto
      then show ?thesis
        using 0 tdp1' by (simp add: et)
    next
      case (Suc n')
      then have "n' < length xs" using n by simp
      then have "map_of (obset_products s') (TDP_STR (det_indx s1 + n')) = Some (expected_tdp xs ! n')"
        using tdps by blast
      then show ?thesis
        using Suc det1 by (simp add: et)
    qed
  qed
  have c7: "\<forall>j<length (tree_groups (x # xs)). map_of (obset_products s') (FP_STR (filt_indx s + j)) =
          Some (expected_fp (x # xs) ! j)"
  proof (intro allI impI)
    fix j assume j: "j < length (tree_groups (x # xs))"
    show "map_of (obset_products s') (FP_STR (filt_indx s + j)) = Some (expected_fp (x # xs) ! j)"
    proof (cases "j < length ftree")
      case True
      have "map_of (obset_products s') (FP_STR (filt_indx s + j)) =
          map_of (obset_products s1) (FP_STR (filt_indx s + j))"
        using filt1 True by (intro keep) auto
      then show ?thesis
        using True fps1' by (simp add: ef nth_append)
    next
      case False
      define j' where "j' = j - length ftree"
      have j': "j' < length (tree_groups xs)" "j = length ftree + j'"
        using False j by (simp_all add: j'_def tg)
      have "map_of (obset_products s') (FP_STR (filt_indx s1 + j')) = Some (expected_fp xs ! j')"
        using fps j'(1) by blast
      then show ?thesis
        using j'(2) filt1 by (simp add: ef nth_append add.assoc)
    qed
  qed
  have c8: "\<forall>i<length (tree_exposures (x # xs)). map_of (obset_products s') (SEP_STR (sep_indx s + i)) =
          Some (expected_sep (x # xs) ! i)"
  proof (intro allI impI)
    fix i assume i: "i < length (tree_exposures (x # xs))"
    show "map_of (obset_products s') (SEP_STR (sep_indx s + i)) = Some (expected_sep (x # xs) ! i)"
    proof (cases "i < length es")
      case True
      have "map_of (obset_products s') (SEP_STR (sep_indx s + i)) =
          map_of (obset_products s1) (SEP_STR (sep_indx s + i))"
        using sep1' True by (intro keep) auto
      then show ?thesis
        using True seps1' by (simp add: ee nth_append)
    next
      case False
      define i' where "i' = i - length es"
      have i': "i' < length (tree_exposures xs)" "i = length es + i'"
        using False i by (simp_all add: i'_def te)
      have "map_of (obset_products s') (SEP_STR (sep_indx s1 + i')) = Some (expected_sep xs ! i')"
        using seps i'(1) by blast
      then show ?thesis
        using i'(2) sep1' by (simp add: ee nth_append add.assoc)
    qed
  qed
  have c9: "\<forall>k. k \<notin> TDP_STR ` {det_indx s..<det_indx s + length (x # xs)} \<longrightarrow>
           k \<notin> FP_STR ` {filt_indx s..<filt_indx s + length (tree_groups (x # xs))} \<longrightarrow>
           k \<notin> SEP_STR ` {sep_indx s..<sep_indx s + length (tree_exposures (x # xs))} \<longrightarrow>
           map_of (obset_products s') k = map_of (obset_products s) k"
  proof (intro allI impI)
    fix k assume k: "k \<notin> TDP_STR ` {det_indx s..<det_indx s + length (x # xs)}"
      "k \<notin> FP_STR ` {filt_indx s..<filt_indx s + length (tree_groups (x # xs))}"
      "k \<notin> SEP_STR ` {sep_indx s..<sep_indx s + length (tree_exposures (x # xs))}"
    have a: "k \<noteq> TDP_STR (det_indx s)" using k(1) by auto
    have a': "k \<notin> TDP_STR ` {det_indx s1..<det_indx s1 + length xs}"
      using k(1) det1 by auto
    have b: "k \<notin> FP_STR ` {filt_indx s..<filt_indx s + length ftree}"
      using k(2) by (auto simp: tg)
    have b': "k \<notin> FP_STR ` {filt_indx s1..<filt_indx s1 + length (tree_groups xs)}"
      using k(2) filt1 by (auto simp: tg)
    have c: "k \<notin> SEP_STR ` {sep_indx s..<sep_indx s + length es}"
      using k(3) by (auto simp: te)
    have c': "k \<notin> SEP_STR ` {sep_indx s1..<sep_indx s1 + length (tree_exposures xs)}"
      using k(3) sep1' by (auto simp: te)
    show "map_of (obset_products s') k = map_of (obset_products s) k"
      using keep [OF a' b' c'] others1' [rule_format, OF a b c] by simp
  qed
  show ?case
    using c1 c2 c4 c5 c6 c7 c8 c9 by (intro exI [of _ s']) simp
qed

lemma parse_obset_tree_spec:
  assumes "well_formed dtree"
  shows "\<exists>prods. parse_obset_tree dtree = Inr prods \<and>
      distinct (map fst prods) \<and>
      fst ` set prods =
        TDP_STR ` {0..<length dtree} \<union> FP_STR ` {0..<length (tree_groups dtree)}
          \<union> SEP_STR ` {0..<length (tree_exposures dtree)} \<and>
      (\<forall>n<length dtree. map_of prods (TDP_STR n) = Some (expected_tdp dtree ! n)) \<and>
      (\<forall>j<length (tree_groups dtree). map_of prods (FP_STR j) = Some (expected_fp dtree ! j)) \<and>
      (\<forall>i<length (tree_exposures dtree). map_of prods (SEP_STR i) = Some (expected_sep dtree ! i))"
proof -
  have le: "prev_det_indx initial_pstate \<le> det_indx initial_pstate"
    by (simp add: initial_pstate_def)
  have init: "det_indx initial_pstate = 0" "filt_indx initial_pstate = 0"
    "sep_indx initial_pstate = 0" "obset_products initial_pstate = []"
    by (simp_all add: initial_pstate_def)
  from detectors_loop [OF assms le] obtain s' where
    run: "for_each detector_step (map snd dtree) initial_pstate = Inr s'"
    and dist: "distinct (map fst (obset_products initial_pstate)) \<longrightarrow> distinct (map fst (obset_products s'))"
    and keys: "fst ` set (obset_products s') =
        fst ` set (obset_products initial_pstate)
          \<union> TDP_STR ` {det_indx initial_pstate..<det_indx initial_pstate + length dtree}
          \<union> FP_STR ` {filt_indx initial_pstate..<filt_indx initial_pstate + length (tree_groups dtree)}
          \<union> SEP_STR ` {sep_indx initial_pstate..<sep_indx initial_pstate + length (tree_exposures dtree)}"
    and tdps: "\<forall>n<length dtree. map_of (obset_products s') (TDP_STR (det_indx initial_pstate + n)) =
          Some (expected_tdp dtree ! n)"
    and fps: "\<forall>j<length (tree_groups dtree). map_of (obset_products s') (FP_STR (filt_indx initial_pstate + j)) =
          Some (expected_fp dtree ! j)"
    and seps: "\<forall>i<length (tree_exposures dtree). map_of (obset_products s') (SEP_STR (sep_indx initial_pstate + i)) =
          Some (expected_sep dtree ! i)"
    by (elim exE conjE) (rule that)
  have "parse_obset_tree dtree = Inr (obset_products s')"
    by (simp add: parse_obset_tree_def run and_then_def)
  then show ?thesis
    using dist keys tdps fps seps by (intro exI [of _ "obset_products s'"]) (simp add: init)
qed

lemma length_expected [simp]:
  "length (expected_tdp dtree) = length dtree"
  "length (expected_fp dtree) = length (tree_groups dtree)"
  "length (expected_sep dtree) = length (tree_exposures dtree)"
  by (induction dtree)
     (simp_all add: expected_tdp_def expected_fp_def expected_sep_def tree_groups_def tree_exposures_def)

lemma lookups_eq:
  assumes "\<forall>i<length ps. m (key i) = Some (ps ! i)"
  shows "map (\<lambda>i. m (key i)) [0..<length ps] = map Some ps"
  using assms by (intro nth_equalityI) simp_all

section \<open>The entries of the result\<close>

lemma startswith_append [simp]: "startswith (p @ s) p"
  by (induction p) simp_all

lemma category_of_key [simp]:
  "startswith (TDP_STR n) ''total detection product''"
  "\<not> startswith (FP_STR n) ''total detection product''"
  "\<not> startswith (SEP_STR n) ''total detection product''"
  "\<not> startswith (TDP_STR n) ''filter product''"
  "startswith (FP_STR n) ''filter product''"
  "\<not> startswith (SEP_STR n) ''filter product''"
  "\<not> startswith (TDP_STR n) ''single exposure product''"
  "\<not> startswith (FP_STR n) ''single exposure product''"
  "startswith (SEP_STR n) ''single exposure product''"
  by (simp_all add: TDP_STR_def FP_STR_def SEP_STR_def)

lemma card_keys [simp]:
  "card (TDP_STR ` {0..<n}) = n" "card (FP_STR ` {0..<n}) = n" "card (SEP_STR ` {0..<n}) = n"
  by (simp_all add: card_image inj_on_def)

lemma length_filter_keys:
  assumes "distinct ks" and "set (filter P ks) = A"
  shows "length (filter P ks) = card A"
  using assms distinct_card [of "filter P ks"] by simp

text \<open>
  Claim C5. For a tree with \<open>D\<close> detectors, \<open>F\<close> filter groups in all and \<open>N\<close> exposures in
  all, whose info strings are not blank, \<open>parse_obset_tree\<close> returns a dictionary without
  repeated keys whose keys are the total detection products \<open>0..D-1\<close>, the filter products
  \<open>0..F-1\<close> and the single exposure products \<open>0..N-1\<close>, numbered with \<open>{:02d}\<close>: exactly
  \<open>D\<close>, \<open>F\<close> and \<open>N\<close> entries of the three categories. The three counters run over the
  whole tree and are never reset.
\<close>

theorem parse_obset_tree_counts:
  assumes "well_formed dtree"
  shows "\<exists>prods. parse_obset_tree dtree = Inr prods \<and>
      distinct (map fst prods) \<and>
      set (map fst prods) =
        TDP_STR ` {0..<length dtree} \<union> FP_STR ` {0..<length (tree_groups dtree)}
          \<union> SEP_STR ` {0..<length (tree_exposures dtree)} \<and>
      set (filter (\<lambda>k. startswith k ''total detection product'') (map fst prods)) =
        TDP_STR ` {0..<length dtree} \<and>
      length (filter (\<lambda>k. startswith k ''total detection product'') (map fst prods)) = length dtree \<and>
      set (filter (\<lambda>k. startswith k ''filter product'') (map fst prods)) =
        FP_STR ` {0..<length (tree_groups dtree)} \<and>
      length (filter (\<lambda>k. startswith k ''filter product'') (map fst prods)) =
        length (tree_groups dtree) \<and>
      set (filter (\<lambda>k. startswith k ''single exposure product'') (map fst prods)) =
        SEP_STR ` {0..<length (tree_exposures dtree)} \<and>
      length (filter (\<lambda>k. startswith k ''single exposure product'') (map fst prods)) =
        length (tree_exposures dtree)"
proof -
  from parse_obset_tree_spec [OF assms] obtain prods where
    run: "parse_obset_tree dtree = Inr prods"
    and dist: "distinct (map fst prods)"
    and keys: "fst ` set prods =
        TDP_STR ` {0..<length dtree} \<union> FP_STR ` {0..<length (tree_groups dtree)}
          \<union> SEP_STR ` {0..<length (tree_exposures dtree)}"
    by (elim exE conjE) (rule that)
  have k: "set (map fst prods) =
        TDP_STR ` {0..<length dtree} \<union> FP_STR ` {0..<length (tree_groups dtree)}
          \<union> SEP_STR ` {0..<length (tree_exposures dtree)}"
    using keys by simp
  have t: "set (filter (\<lambda>k. startswith k ''total detection product'') (map fst prods)) =
        TDP_STR ` {0..<length dtree}"
    unfolding set_filter k by auto
  have f: "set (filter (\<lambda>k. startswith k ''filter product'') (map fst prods)) =
        FP_STR ` {0..<length (tree_groups dtree)}"
    unfolding set_filter k by auto
  have s: "set (filter (\<lambda>k. startswith k ''single exposure product'') (map fst prods)) =
        SEP_STR ` {0..<length (tree_exposures dtree)}"
    unfolding set_filter k by auto
  show ?thesis
    using run dist k t f s length_filter_keys [OF dist t] length_filter_keys [OF dist f]
      length_filter_keys [OF dist s]
    by (intro exI [of _ prods]) (simp only: card_keys simp_thms)
qed

theorem parse_obset_tree_counts_witness:
  "well_formed example_tree \<and>
   (\<exists>prods. parse_obset_tree example_tree = Inr prods \<and>
      distinct (map fst prods) \<and>
      set (map fst prods) =
        TDP_STR ` {0..<length example_tree} \<union> FP_STR ` {0..<length (tree_groups example_tree)}
          \<union> SEP_STR ` {0..<length (tree_exposures example_tree)} \<and>
      set (filter (\<lambda>k. startswith k ''total detection product'') (map fst prods)) =
        TDP_STR ` {0..<length example_tree} \<and>
      length (filter (\<lambda>k. startswith k ''total detection product'') (map fst prods)) = length example_tree \<and>
      set (filter (\<lambda>k. startswith k ''filter product'') (map fst prods)) =
        FP_STR ` {0..<length (tree_groups example_tree)} \<and>
      length (filter (\<lambda>k. startswith k ''filter product'') (map fst prods)) =
        length (tree_groups example_tree) \<and>
      set (filter (\<lambda>k. startswith k ''single exposure product'') (map fst prods)) =
        SEP_STR ` {0..<length (tree_exposures example_tree)} \<and>
      length (filter (\<lambda>k. startswith k ''single exposure product'') (map fst prods)) =
        length (tree_exposures example_tree))"
proof -
  have wf: "well_formed example_tree"
    by code_simp
  show ?thesis
    by (intro conjI wf parse_obset_tree_counts [OF wf])
qed

section \<open>The info strings and the files of the result\<close>

lemma files_add_exposures [simp]: "files (add_exposures mk es empty_product) = map snd es"
  by (cases es) (simp_all add: add_exposures_def empty_product_def)




lemma lookups_field:
  assumes "\<forall>i<length ps. m (key i) = Some (ps ! i)"
  shows "map (\<lambda>i. map_option f (m (key i))) [0..<length ps] = map (\<lambda>p. Some (f p)) ps"
  using assms by (intro nth_equalityI) simp_all

text \<open>
  Claim C2, as the code has it. \<open>det_indx\<close> is incremented before the exposures of a
  detector are read, so it differs from \<open>prev_det_indx\<close> on the first exposure of every
  detector, the first detector included. For a tree whose info strings are not blank, the
  info strings of the result are the ones of \<open>expected_sep\<close>, \<open>expected_fp\<close> and
  \<open>expected_tdp\<close>: they end with the file type of their detector, which is \<open>drz\<close> when
  characters 10 to 13 of the first file name of that detector end with \<open>flt\<close> and \<open>drc\<close>
  otherwise.
\<close>

theorem parse_obset_tree_filetype:
  assumes "well_formed dtree"
  shows "\<exists>prods. parse_obset_tree dtree = Inr prods \<and>
      map (\<lambda>i. map_option info (map_of prods (SEP_STR i))) [0..<length (tree_exposures dtree)] =
        map (\<lambda>p. Some (info p)) (expected_sep dtree) \<and>
      map (\<lambda>j. map_option info (map_of prods (FP_STR j))) [0..<length (tree_groups dtree)] =
        map (\<lambda>p. Some (info p)) (expected_fp dtree) \<and>
      map (\<lambda>n. map_option info (map_of prods (TDP_STR n))) [0..<length dtree] =
        map (\<lambda>p. Some (info p)) (expected_tdp dtree)"
proof -
  from parse_obset_tree_spec [OF assms] obtain prods where
    run: "parse_obset_tree dtree = Inr prods"
    and tdps: "\<forall>n<length dtree. map_of prods (TDP_STR n) = Some (expected_tdp dtree ! n)"
    and fps: "\<forall>j<length (tree_groups dtree). map_of prods (FP_STR j) = Some (expected_fp dtree ! j)"
    and seps: "\<forall>i<length (tree_exposures dtree). map_of prods (SEP_STR i) = Some (expected_sep dtree ! i)"
    by (elim exE conjE) (rule that)
  have a: "map (\<lambda>i. map_option info (map_of prods (SEP_STR i))) [0..<length (tree_exposures dtree)] =
        map (\<lambda>p. Some (info p)) (expected_sep dtree)"
    using lookups_field [of "expected_sep dtree" "map_of prods" SEP_STR info] seps by simp
  have b: "map (\<lambda>j. map_option info (map_of prods (FP_STR j))) [0..<length (tree_groups dtree)] =
        map (\<lambda>p. Some (info p)) (expected_fp dtree)"
    using lookups_field [of "expected_fp dtree" "map_of prods" FP_STR info] fps by simp
  have c: "map (\<lambda>n. map_option info (map_of prods (TDP_STR n))) [0..<length dtree] =
        map (\<lambda>p. Some (info p)) (expected_tdp dtree)"
    using lookups_field [of "expected_tdp dtree" "map_of prods" TDP_STR info] tdps by simp
  show ?thesis
    using run a b c by (intro exI [of _ prods] conjI)
qed

theorem parse_obset_tree_filetype_witness:
  "well_formed example_tree \<and>
   (\<exists>prods. parse_obset_tree example_tree = Inr prods \<and>
      map (\<lambda>i. map_option info (map_of prods (SEP_STR i))) [0..<length (tree_exposures example_tree)] =
        map (\<lambda>p. Some (info p)) (expected_sep example_tree) \<and>
      map (\<lambda>j. map_option info (map_of prods (FP_STR j))) [0..<length (tree_groups example_tree)] =
        map (\<lambda>p. Some (info p)) (expected_fp example_tree) \<and>
      map (\<lambda>n. map_option info (map_of prods (TDP_STR n))) [0..<length example_tree] =
        map (\<lambda>p. Some (info p)) (expected_tdp example_tree)) \<and>
   map info (expected_sep example_tree) =
     [''11150 70 wfc3 ir f110w ia1s70jtq drz'', ''11150 70 wfc3 ir f110w ia1s70jkq drz'',
      ''11150 70 wfc3 ir f160w ia1s70jwq drz'', ''11150 70 wfc3 uvis f606w ia1s70jmq drc'']"
proof -
  have wf: "well_formed example_tree"
    by code_simp
  have ex: "map info (expected_sep example_tree) =
     [''11150 70 wfc3 ir f110w ia1s70jtq drz'', ''11150 70 wfc3 ir f110w ia1s70jkq drz'',
      ''11150 70 wfc3 ir f160w ia1s70jwq drz'', ''11150 70 wfc3 uvis f606w ia1s70jmq drc'']"
    by code_simp
  show ?thesis
    by (intro conjI wf ex parse_obset_tree_filetype [OF wf])
qed

text \<open>
  Claim C2, as it is worded. A tree with one detector and one exposure: the file type of
  the products of this first detector is \<open>drz\<close>, read from \<open>flt\<close> in the file name, and not
  the empty string that \<open>filetype\<close> is initialised with.
\<close>

theorem first_detector_filetype_detected:
  "parse_obset_tree
     [(''IR'', [(''f110w'', [(''11150 70 WFC3 IR F110W IA1S70JTQ'', ''ia1s70jtq_flt.fits'')])])]
   = Inr [(''total detection product 00'',
            \<lparr>info = ''11150 70 wfc3 ir ia1s70jtq drz'', files = [''ia1s70jtq_flt.fits'']\<rparr>),
          (''filter product 00'',
            \<lparr>info = ''11150 70 wfc3 ir f110w ia1s70jtq drz'', files = [''ia1s70jtq_flt.fits'']\<rparr>),
          (''single exposure product 00'',
            \<lparr>info = ''11150 70 wfc3 ir f110w ia1s70jtq drz'', files = [''ia1s70jtq_flt.fits'']\<rparr>)] \<and>
   sep_info [] (''11150 70 WFC3 IR F110W IA1S70JTQ'', ''ia1s70jtq_flt.fits'')
     = ''11150 70 wfc3 ir f110w ia1s70jtq '' \<and>
   ''11150 70 wfc3 ir f110w ia1s70jtq drz'' \<noteq> ''11150 70 wfc3 ir f110w ia1s70jtq ''"
  by code_simp




end
